theory Spec2Isabelle
  imports Main "HOL-Library.Word"
begin

unbundle bit_operations_syntax

section \<open>The Bluetooth vendor library \<^verbatim>\<open>bt_vendor.cc\<close>\<close>

text \<open>
  The library talks to the kernel through system calls and to the upstream stack through
  a callback table. The embedding makes both explicit: every system call, property
  request and callback the code performs is appended to a trace kept in the state, and
  the kernel's answers come from an oracle record. Logging is left out.
\<close>

subsection \<open>Constants\<close>

type_synonym byte = "8 word"

definition AF_BLUETOOTH :: nat where "AF_BLUETOOTH = 31"
definition HCI_CHANNEL_USER :: "16 word" where "HCI_CHANNEL_USER = 1"
definition HCI_CHANNEL_CONTROL :: "16 word" where "HCI_CHANNEL_CONTROL = 3"
definition HCI_DEV_NONE :: nat where "HCI_DEV_NONE = 65535"

definition RFKILL_TYPE_BLUETOOTH :: byte where "RFKILL_TYPE_BLUETOOTH = 2"
definition RFKILL_OP_CHANGE_ALL :: byte where "RFKILL_OP_CHANGE_ALL = 3"

definition MGMT_OP_INDEX_LIST :: nat where "MGMT_OP_INDEX_LIST = 3"
definition MGMT_EV_INDEX_ADDED :: nat where "MGMT_EV_INDEX_ADDED = 4"
definition MGMT_EV_COMMAND_COMP :: nat where "MGMT_EV_COMMAND_COMP = 1"
definition MGMT_EV_SIZE_MAX :: nat where "MGMT_EV_SIZE_MAX = 1024"
definition MGMT_EV_POLL_TIMEOUT :: int where "MGMT_EV_POLL_TIMEOUT = 3000"

definition POLLIN :: "16 word" where "POLLIN = 1"

text \<open>
  The header \<^verbatim>\<open>bt_vendor_lib.h\<close> is not part of the sources. Its enumerations are
  datatypes here; the one numeric value the code compares against, \<^verbatim>\<open>BT_VND_PWR_ON\<close>,
  is the second member of its enumeration. No theorem below depends on that value.
\<close>

definition BT_VND_PWR_ON :: int where "BT_VND_PWR_ON = 1"

datatype bt_vendor_opcode_t =
    BT_VND_OP_POWER_CTRL
  | BT_VND_OP_FW_CFG
  | BT_VND_OP_SCO_CFG
  | BT_VND_OP_USERIAL_OPEN
  | BT_VND_OP_USERIAL_CLOSE
  | BT_VND_OP_GET_LPM_IDLE_TIMEOUT
  | BT_VND_OP_LPM_SET_MODE
  | BT_VND_OP_LPM_WAKE_SET_STATE
  | BT_VND_OP_SET_AUDIO_STATE
  | BT_VND_OP_EPILOG
  | BT_VND_OP_A2DP_OFFLOAD_START
  | BT_VND_OP_A2DP_OFFLOAD_STOP
  | BT_VND_OP_OTHER int

datatype bt_vendor_op_result_t = BT_VND_OP_RESULT_SUCCESS | BT_VND_OP_RESULT_FAIL

datatype bt_vendor_ch = CH_CMD | CH_EVT | CH_ACL_OUT | CH_ACL_IN

datatype callback = fwcfg_cb | scocfg_cb | lpm_cb | audio_state_cb | epilog_cb

subsection \<open>Structures\<close>

record sockaddr_hci =
  hci_family :: nat
  hci_dev :: "16 word"
  hci_channel :: "16 word"

record rfkill_event =
  rf_idx :: "32 word"
  rf_type :: byte
  rf_op :: byte
  rf_soft :: byte
  rf_hard :: byte

text \<open>The packed image of an \<^verbatim>\<open>rfkill_event\<close> on a little-endian host, as \<^verbatim>\<open>write\<close> sees it.\<close>

definition rfkill_bytes :: "rfkill_event \<Rightarrow> byte list" where
  "rfkill_bytes e =
     [ucast (rf_idx e), ucast (drop_bit 8 (rf_idx e)),
      ucast (drop_bit 16 (rf_idx e)), ucast (drop_bit 24 (rf_idx e)),
      rf_type e, rf_op e, rf_soft e, rf_hard e]"

text \<open>
  \<^verbatim>\<open>struct mgmt_pkt\<close> is packed and the code reads its payload through a cast to
  \<^verbatim>\<open>struct mgmt_event_read_index\<close>, so the buffer is modelled as its byte image:
  offsets 0 to 5 are the header (opcode, index, len), offsets 6 to 1029 are \<^verbatim>\<open>data\<close>.
  The image is a function of the offset; offsets from \<open>sizeof_mgmt_pkt\<close> on lie outside
  the object and are never read by the model (see \<open>scan_index\<close>). The 16-bit fields
  are read in the byte order of the host, which is little-endian, as the management
  protocol is.
\<close>

type_synonym mgmt_pkt = "nat \<Rightarrow> byte"

definition sizeof_mgmt_pkt :: nat where
  "sizeof_mgmt_pkt = 6 + MGMT_EV_SIZE_MAX"

definition le16 :: "mgmt_pkt \<Rightarrow> nat \<Rightarrow> nat" where
  "le16 ev off = unat (ev off) + 256 * unat (ev (Suc off))"

definition put16 :: "nat \<Rightarrow> byte list" where
  "put16 v = [of_nat (v mod 256), of_nat (v div 256 mod 256)]"

definition store :: "byte list \<Rightarrow> mgmt_pkt \<Rightarrow> mgmt_pkt" where
  "store bs ev = (\<lambda>i. if i < length bs then bs ! i else ev i)"

definition pkt_opcode :: "mgmt_pkt \<Rightarrow> nat" where "pkt_opcode ev = le16 ev 0"
definition pkt_index :: "mgmt_pkt \<Rightarrow> nat" where "pkt_index ev = le16 ev 2"
definition pkt_len :: "mgmt_pkt \<Rightarrow> nat" where "pkt_len ev = le16 ev 4"

definition cc_opcode :: "mgmt_pkt \<Rightarrow> nat" where "cc_opcode ev = le16 ev 6"
definition cc_status :: "mgmt_pkt \<Rightarrow> nat" where "cc_status ev = unat (ev 8)"
definition cc_num_intf :: "mgmt_pkt \<Rightarrow> nat" where "cc_num_intf ev = le16 ev 9"
definition cc_index :: "mgmt_pkt \<Rightarrow> nat \<Rightarrow> nat" where "cc_index ev i = le16 ev (11 + 2 * i)"

subsection \<open>Trace, kernel oracle and library state\<close>

datatype ioctl_request = IOCTL_HCIDEVDOWN

datatype event =
    Socket int
  | Bind int sockaddr_hci int
  | Write int "byte list" int
  | Poll int int int
  | Read int nat int
  | Close int
  | Ioctl int ioctl_request int int
  | Open string int
  | PropertySet string string int
  | Callback callback bt_vendor_op_result_t

text \<open>
  \<open>Socket fd\<close> is a call of \<^verbatim>\<open>socket(AF_BLUETOOTH, SOCK_RAW, BTPROTO_HCI)\<close> that returned
  \<open>fd\<close>; \<open>Poll fd timeout n\<close>, \<open>Read fd count n\<close>, \<open>Bind fd addr r\<close>, \<open>Write fd bytes n\<close>,
  \<open>Ioctl fd request arg r\<close>, \<open>Open path fd\<close> (always write-only) and
  \<open>PropertySet key value r\<close> carry the arguments and then the result of the call.
\<close>

datatype read_result = ReadErr | ReadData "byte list"

text \<open>
  One turn of the wait loop consumes one \<open>cycle\<close>: what \<^verbatim>\<open>poll\<close> returns, the
  \<^verbatim>\<open>revents\<close> it leaves, and what a following \<^verbatim>\<open>read\<close> delivers.
\<close>

record cycle =
  poll_ret :: int
  revents :: "16 word"
  read_res :: read_result

record kernel =
  k_socket :: int
  k_bind :: "int \<Rightarrow> sockaddr_hci \<Rightarrow> int"
  k_write :: "int \<Rightarrow> byte list \<Rightarrow> int"
  k_cycles :: "cycle list"
  k_ioctl :: "int \<Rightarrow> int \<Rightarrow> int"
  k_open :: "string \<Rightarrow> int"
  k_property_set :: "string \<Rightarrow> string \<Rightarrow> int"
  k_stack :: "nat \<Rightarrow> byte"

text \<open>
  \<open>k_cycles\<close> is a finite prefix of what the control socket will deliver. \<open>k_stack\<close>
  is the content of the stack where the uninitialised \<^verbatim>\<open>ev\<close> is allocated.
\<close>

record vendor =
  bt_vendor_callbacks :: bool
  bt_vendor_fd :: int
  hci_interface :: int
  rfkill_en :: int
  bt_hwcfg_en :: int
  trace :: "event list"

text \<open>\<open>bt_vendor_callbacks\<close> holds whether the pointer of that name is not \<^verbatim>\<open>NULL\<close>.\<close>

definition emit :: "event \<Rightarrow> vendor \<Rightarrow> vendor" where
  "emit e s = s\<lparr>trace := trace s @ [e]\<rparr>"

text \<open>
  A call either returns, or is still inside the wait loop when the known prefix of the
  kernel's events is used up (\<open>Running\<close>), or has left the behaviour C defines
  (\<open>Undefined\<close>: a read outside \<^verbatim>\<open>ev\<close>, a call through a \<^verbatim>\<open>NULL\<close> table, a parameter of
  the wrong kind).
\<close>

datatype 'a outcome = Returns 'a | Running | Undefined

text \<open>
  What the \<^verbatim>\<open>void*\<close> parameter of the dispatcher points to: nothing, an \<^verbatim>\<open>int\<close>, the
  caller's array of descriptors with one slot for each channel, or a \<^verbatim>\<open>uint32_t\<close>. The
  operations return it as they leave it.
\<close>

datatype param =
    NullP
  | IntP int
  | FdArrayP "bt_vendor_ch \<Rightarrow> int"
  | U32P "32 word"

subsection \<open>The hardware-config hook\<close>

definition bt_vendor_hw_cfg :: "kernel \<Rightarrow> int \<Rightarrow> vendor \<Rightarrow> int \<times> vendor" where
  "bt_vendor_hw_cfg k stop s =
     (if bt_hwcfg_en s = 0 then (0, s)
      else if stop \<noteq> 0 then
        (let r = k_property_set k ''vendor.bluetooth.hwcfg'' ''stop'';
             s1 = emit (PropertySet ''vendor.bluetooth.hwcfg'' ''stop'' r) s
         in if r < 0 then (1, s1) else (0, s1))
      else
        (let r = k_property_set k ''vendor.bluetooth.hwcfg'' ''start'';
             s1 = emit (PropertySet ''vendor.bluetooth.hwcfg'' ''start'' r) s
         in if r < 0 then (1, s1) else (0, s1)))"

subsection \<open>The index watcher\<close>

text \<open>
  The \<^verbatim>\<open>for\<close> loop over \<^verbatim>\<open>cc->index\<close>: \<open>i\<close> is the loop variable and the last argument
  counts the turns that remain, \<^verbatim>\<open>cc->num_intf - i\<close>. The code has no bound but
  \<^verbatim>\<open>num_intf\<close>; entry \<open>i\<close> occupies offsets \<open>11 + 2 * i\<close> and \<open>12 + 2 * i\<close> of \<^verbatim>\<open>ev\<close>, and a
  read of an entry that does not lie inside \<^verbatim>\<open>ev\<close> is \<open>OutOfBounds\<close>. \<open>Found i\<close> and
  \<open>OutOfBounds i\<close> record the entry at which the loop stopped.
\<close>

datatype scan_result = Found nat | NotFound | OutOfBounds nat

primrec scan_index :: "mgmt_pkt \<Rightarrow> int \<Rightarrow> nat \<Rightarrow> nat \<Rightarrow> scan_result" where
  "scan_index ev target i 0 = NotFound"
| "scan_index ev target i (Suc remaining) =
     (if sizeof_mgmt_pkt < 11 + 2 * i + 2 then OutOfBounds i
      else if int (cc_index ev i) = target then Found i
      else scan_index ev target (Suc i) remaining)"

text \<open>
  The body of the wait loop after a successful \<^verbatim>\<open>read\<close>: \<open>Success\<close> is \<^verbatim>\<open>goto end\<close> with
  \<^verbatim>\<open>ret\<close> still 0, \<open>Continue\<close> is the next turn of the loop, \<open>Fault\<close> is a read outside
  \<^verbatim>\<open>ev\<close>. Neither the number of bytes read nor \<^verbatim>\<open>ev.len\<close> is consulted.
\<close>

datatype decision = Success | Continue | Fault

definition check_event :: "int \<Rightarrow> mgmt_pkt \<Rightarrow> decision" where
  "check_event target ev =
     (if pkt_opcode ev = MGMT_EV_INDEX_ADDED \<and> int (pkt_index ev) = target then Success
      else if pkt_opcode ev = MGMT_EV_COMMAND_COMP then
        (if cc_opcode ev \<noteq> MGMT_OP_INDEX_LIST \<or> cc_status ev \<noteq> 0 then Continue
         else if cc_num_intf ev > 0 then
           (case scan_index ev target 0 (cc_num_intf ev) of
              Found i \<Rightarrow> Success
            | NotFound \<Rightarrow> Continue
            | OutOfBounds i \<Rightarrow> Fault)
         else Continue)
      else Continue)"

fun wait_loop :: "int \<Rightarrow> int \<Rightarrow> mgmt_pkt \<Rightarrow> cycle list \<Rightarrow> vendor \<Rightarrow> int outcome \<times> vendor" where
  "wait_loop fd target ev [] s = (Running, s)"
| "wait_loop fd target ev (c # cs) s =
     (let n = poll_ret c;
          s1 = emit (Poll fd MGMT_EV_POLL_TIMEOUT n) s
      in if n = - 1 then (Returns (- 1), s1)
         else if n = 0 then (Returns (- 1), s1)
         else if revents c AND POLLIN = 0 then wait_loop fd target ev cs s1
         else
           (case read_res c of
              ReadErr \<Rightarrow> (Returns (- 1), emit (Read fd sizeof_mgmt_pkt (- 1)) s1)
            | ReadData bs \<Rightarrow>
                (let got = take sizeof_mgmt_pkt bs;
                     ev' = store got ev;
                     s2 = emit (Read fd sizeof_mgmt_pkt (int (length got))) s1
                 in case check_event target ev' of
                      Success \<Rightarrow> (Returns 0, s2)
                    | Continue \<Rightarrow> wait_loop fd target ev' cs s2
                    | Fault \<Rightarrow> (Undefined, s2))))"

text \<open>The request: the three header fields are assigned, \<^verbatim>\<open>data\<close> keeps what the stack held.\<close>

definition index_list_request :: "kernel \<Rightarrow> mgmt_pkt" where
  "index_list_request k =
     store (put16 MGMT_OP_INDEX_LIST @ put16 HCI_DEV_NONE @ put16 0) (k_stack k)"

definition bt_vendor_wait_hcidev :: "kernel \<Rightarrow> vendor \<Rightarrow> int outcome \<times> vendor" where
  "bt_vendor_wait_hcidev k s =
     (let fd = k_socket k;
          s1 = emit (Socket fd) s
      in if fd < 0 then (Returns (- 1), s1)
         else
           (let addr = \<lparr>hci_family = AF_BLUETOOTH, hci_dev = of_nat HCI_DEV_NONE,
                        hci_channel = HCI_CHANNEL_CONTROL\<rparr>;
                b = k_bind k fd addr;
                s2 = emit (Bind fd addr b) s1
            in if b < 0 then (Returns (- 1), emit (Close fd) s2)
               else
                 (let ev = index_list_request k;
                      hdr = map ev [0 ..< sizeof_mgmt_pkt - MGMT_EV_SIZE_MAX];
                      wrote = k_write k fd hdr;
                      s3 = emit (Write fd hdr wrote) s2
                  in if wrote \<noteq> 6 then (Returns (- 1), emit (Close fd) s3)
                     else
                       (case wait_loop fd (hci_interface s) ev (k_cycles k) s3 of
                          (Returns ret, s4) \<Rightarrow> (Returns ret, emit (Close fd) s4)
                        | (Running, s4) \<Rightarrow> (Running, s4)
                        | (Undefined, s4) \<Rightarrow> (Undefined, s4)))))"

subsection \<open>The channel\<close>

definition bt_vendor_open :: "kernel \<Rightarrow> param \<Rightarrow> vendor \<Rightarrow> int outcome \<times> param \<times> vendor" where
  "bt_vendor_open k p s =
     (let fd = k_socket k;
          s1 = emit (Socket fd) s
      in if fd < 0 then (Returns (- 1), p, s1)
         else
           (case p of
              FdArrayP fd_array \<Rightarrow>
                (Returns 1,
                 FdArrayP (fd_array(CH_CMD := fd, CH_EVT := fd, CH_ACL_OUT := fd, CH_ACL_IN := fd)),
                 s1\<lparr>bt_vendor_fd := fd\<rparr>)
            | _ \<Rightarrow> (Undefined, p, s1)))"

definition bt_vendor_close :: "vendor \<Rightarrow> int \<times> vendor" where
  "bt_vendor_close s =
     (if bt_vendor_fd s \<noteq> - 1
      then (0, (emit (Close (bt_vendor_fd s)) s)\<lparr>bt_vendor_fd := - 1\<rparr>)
      else (0, s))"

subsection \<open>The radio kill switch\<close>

definition bt_vendor_rfkill :: "kernel \<Rightarrow> int \<Rightarrow> vendor \<Rightarrow> int \<times> vendor" where
  "bt_vendor_rfkill k block s =
     (let fd = k_open k ''/dev/rfkill'';
          s1 = emit (Open ''/dev/rfkill'' fd) s
      in if fd < 0 then (- 1, s1)
         else
           (let event = \<lparr>rf_idx = 0, rf_type = RFKILL_TYPE_BLUETOOTH, rf_op = RFKILL_OP_CHANGE_ALL,
                         rf_soft = word_of_int block, rf_hard = word_of_int block\<rparr>;
                len = k_write k fd (rfkill_bytes event);
                s2 = emit (Write fd (rfkill_bytes event) len) s1
            in if len < 0 then (1, emit (Close fd) s2)
               else (0, emit (Close fd) s2)))"

subsection \<open>Firmware configuration: the bringup sequence\<close>

definition call_back :: "callback \<Rightarrow> bt_vendor_op_result_t \<Rightarrow> vendor \<Rightarrow> unit outcome \<times> vendor" where
  "call_back cb res s =
     (if bt_vendor_callbacks s then (Returns (), emit (Callback cb res) s) else (Undefined, s))"

definition bt_vendor_fw_cfg :: "kernel \<Rightarrow> vendor \<Rightarrow> unit outcome \<times> vendor" where
  "bt_vendor_fw_cfg k s =
     (let fd = bt_vendor_fd s
      in if fd = - 1 then call_back fwcfg_cb BT_VND_OP_RESULT_FAIL s
         else
           (let addr = \<lparr>hci_family = AF_BLUETOOTH, hci_dev = word_of_int (hci_interface s),
                        hci_channel = HCI_CHANNEL_USER\<rparr>
            in case bt_vendor_wait_hcidev k s of
                 (Returns w, s1) \<Rightarrow>
                   (if w \<noteq> 0 then call_back fwcfg_cb BT_VND_OP_RESULT_FAIL s1
                    else
                      (let r = k_ioctl k fd (hci_interface s1);
                           s2 = emit (Ioctl fd IOCTL_HCIDEVDOWN (hci_interface s1) r) s1
                       in if r \<noteq> 0 then call_back fwcfg_cb BT_VND_OP_RESULT_FAIL s2
                          else
                            (let b = k_bind k fd addr;
                                 s3 = emit (Bind fd addr b) s2
                             in if b < 0 then call_back fwcfg_cb BT_VND_OP_RESULT_FAIL s3
                                else call_back fwcfg_cb BT_VND_OP_RESULT_SUCCESS s3)))
               | (Running, s1) \<Rightarrow> (Running, s1)
               | (Undefined, s1) \<Rightarrow> (Undefined, s1)))"

subsection \<open>The dispatcher\<close>

definition status_of :: "unit outcome \<Rightarrow> int \<Rightarrow> int outcome" where
  "status_of x retval = (case x of Returns u \<Rightarrow> Returns retval | Running \<Rightarrow> Running | Undefined \<Rightarrow> Undefined)"

fun bt_vendor_op :: "kernel \<Rightarrow> bt_vendor_opcode_t \<Rightarrow> param \<Rightarrow> vendor \<Rightarrow> int outcome \<times> param \<times> vendor" where
  "bt_vendor_op k BT_VND_OP_POWER_CTRL p s =
     (if rfkill_en s = 0 \<or> p = NullP then (Returns 0, p, s)
      else
        (case p of
           IntP v \<Rightarrow>
             (if v = BT_VND_PWR_ON then
                (case bt_vendor_rfkill k 0 s of
                   (retval, s1) \<Rightarrow>
                     (if retval = 0
                      then (case bt_vendor_hw_cfg k 0 s1 of (retval, s2) \<Rightarrow> (Returns retval, p, s2))
                      else (Returns retval, p, s1)))
              else
                (case bt_vendor_hw_cfg k 1 s of
                   (retval, s1) \<Rightarrow>
                     (if retval = 0
                      then (case bt_vendor_rfkill k 1 s1 of (retval, s2) \<Rightarrow> (Returns retval, p, s2))
                      else (Returns retval, p, s1))))
         | _ \<Rightarrow> (Undefined, p, s)))"
| "bt_vendor_op k BT_VND_OP_FW_CFG p s =
     (case bt_vendor_fw_cfg k s of (x, s1) \<Rightarrow> (status_of x 0, p, s1))"
| "bt_vendor_op k BT_VND_OP_SCO_CFG p s =
     (case call_back scocfg_cb BT_VND_OP_RESULT_SUCCESS s of (x, s1) \<Rightarrow> (status_of x 0, p, s1))"
| "bt_vendor_op k BT_VND_OP_USERIAL_OPEN p s = bt_vendor_open k p s"
| "bt_vendor_op k BT_VND_OP_USERIAL_CLOSE p s =
     (case bt_vendor_close s of (retval, s1) \<Rightarrow> (Returns retval, p, s1))"
| "bt_vendor_op k BT_VND_OP_GET_LPM_IDLE_TIMEOUT p s =
     (case p of U32P v \<Rightarrow> (Returns 0, U32P 3000, s) | _ \<Rightarrow> (Undefined, p, s))"
| "bt_vendor_op k BT_VND_OP_LPM_SET_MODE p s =
     (case call_back lpm_cb BT_VND_OP_RESULT_SUCCESS s of (x, s1) \<Rightarrow> (status_of x 0, p, s1))"
| "bt_vendor_op k BT_VND_OP_LPM_WAKE_SET_STATE p s = (Returns 0, p, s)"
| "bt_vendor_op k BT_VND_OP_SET_AUDIO_STATE p s =
     (case call_back audio_state_cb BT_VND_OP_RESULT_SUCCESS s of (x, s1) \<Rightarrow> (status_of x 0, p, s1))"
| "bt_vendor_op k BT_VND_OP_EPILOG p s =
     (case call_back epilog_cb BT_VND_OP_RESULT_SUCCESS s of (x, s1) \<Rightarrow> (status_of x 0, p, s1))"
| "bt_vendor_op k BT_VND_OP_A2DP_OFFLOAD_START p s = (Returns 0, p, s)"
| "bt_vendor_op k BT_VND_OP_A2DP_OFFLOAD_STOP p s = (Returns 0, p, s)"
| "bt_vendor_op k (BT_VND_OP_OTHER v) p s = (Returns 0, p, s)"

section \<open>Vocabulary of the specification\<close>

subsection \<open>Reading a trace\<close>

definition new_events :: "vendor \<Rightarrow> vendor \<Rightarrow> event list" where
  "new_events s s' = drop (length (trace s)) (trace s')"

fun step_failed :: "event \<Rightarrow> bool" where
  "step_failed (Open path fd) = (fd < 0)"
| "step_failed (Write fd bs n) = (n < 0)"
| "step_failed (PropertySet key v r) = (r < 0)"
| "step_failed e = False"

fun callbacks_of :: "event list \<Rightarrow> (callback \<times> bt_vendor_op_result_t) list" where
  "callbacks_of [] = []"
| "callbacks_of (Callback cb res # es) = (cb, res) # callbacks_of es"
| "callbacks_of (e # es) = callbacks_of es"

fun poll_timeouts :: "event list \<Rightarrow> int list" where
  "poll_timeouts [] = []"
| "poll_timeouts (Poll fd timeout n # es) = timeout # poll_timeouts es"
| "poll_timeouts (e # es) = poll_timeouts es"

text \<open>The descriptors a trace creates (successful \<^verbatim>\<open>socket\<close> and \<^verbatim>\<open>open\<close> calls) and closes.\<close>

fun fds_created :: "event list \<Rightarrow> int list" where
  "fds_created [] = []"
| "fds_created (Socket fd # es) = (if 0 \<le> fd then fd # fds_created es else fds_created es)"
| "fds_created (Open path fd # es) = (if 0 \<le> fd then fd # fds_created es else fds_created es)"
| "fds_created (e # es) = fds_created es"

fun fds_closed :: "event list \<Rightarrow> int list" where
  "fds_closed [] = []"
| "fds_closed (Close fd # es) = fd # fds_closed es"
| "fds_closed (e # es) = fds_closed es"

text \<open>The calls the index watcher makes on its control socket between creating and closing it.\<close>

fun watcher_event :: "int \<Rightarrow> event \<Rightarrow> bool" where
  "watcher_event fd (Bind f addr r) = (f = fd)"
| "watcher_event fd (Write f bs n) = (f = fd)"
| "watcher_event fd (Poll f timeout n) = (f = fd \<and> timeout = MGMT_EV_POLL_TIMEOUT)"
| "watcher_event fd (Read f count n) = (f = fd)"
| "watcher_event fd e = False"

subsection \<open>The radio kill switch and the hook\<close>

definition block_record :: "bool \<Rightarrow> rfkill_event" where
  "block_record b =
     \<lparr>rf_idx = 0, rf_type = RFKILL_TYPE_BLUETOOTH, rf_op = RFKILL_OP_CHANGE_ALL,
      rf_soft = of_bool b, rf_hard = of_bool b\<rparr>"

fun radio_step :: "bool \<Rightarrow> event \<Rightarrow> bool" where
  "radio_step b (Open path fd) = (path = ''/dev/rfkill'')"
| "radio_step b (Write fd bs n) = (bs = rfkill_bytes (block_record b))"
| "radio_step b (Close fd) = True"
| "radio_step b e = False"

fun hook_step :: "string \<Rightarrow> event \<Rightarrow> bool" where
  "hook_step v (PropertySet key val r) = (key = ''vendor.bluetooth.hwcfg'' \<and> val = v)"
| "hook_step v e = False"

subsection \<open>Management events as the specification describes them\<close>

text \<open>
  The specification speaks of the bytes a \<^verbatim>\<open>read\<close> delivered: a 6-byte header (opcode,
  index, length) and a payload, which for a command-complete event is the sub-opcode, the
  status, \<^verbatim>\<open>num_intf\<close> and \<^verbatim>\<open>num_intf\<close> indices of two bytes each. \<open>image bs\<close> lays the
  received bytes out at their offsets, so that the field accessors apply to them.
\<close>

definition image :: "byte list \<Rightarrow> mgmt_pkt" where
  "image bs = (\<lambda>i. if i < length bs then bs ! i else 0)"

definition index_added :: "int \<Rightarrow> byte list \<Rightarrow> bool" where
  "index_added target bs =
     (pkt_opcode (image bs) = MGMT_EV_INDEX_ADDED \<and> int (pkt_index (image bs)) = target)"

definition index_sequence :: "byte list \<Rightarrow> nat list" where
  "index_sequence bs = map (cc_index (image bs)) [0 ..< cc_num_intf (image bs)]"

definition index_listed :: "int \<Rightarrow> byte list \<Rightarrow> bool" where
  "index_listed target bs =
     (pkt_opcode (image bs) = MGMT_EV_COMMAND_COMP \<and> cc_opcode (image bs) = MGMT_OP_INDEX_LIST
      \<and> cc_status (image bs) = 0 \<and> target \<in> set (map int (index_sequence bs)))"

text \<open>
  A received packet is complete when it carries every field its opcode announces: the
  header; for a command-complete event the sub-opcode and the status; for an index-list
  response with status 0 also \<^verbatim>\<open>num_intf\<close> and that many indices. It is no longer than
  \<^verbatim>\<open>struct mgmt_pkt\<close>.
\<close>

definition complete :: "byte list \<Rightarrow> bool" where
  "complete bs =
     (6 \<le> length bs \<and> length bs \<le> sizeof_mgmt_pkt \<and>
      (pkt_opcode (image bs) = MGMT_EV_COMMAND_COMP \<longrightarrow>
         9 \<le> length bs \<and>
         (cc_opcode (image bs) = MGMT_OP_INDEX_LIST \<and> cc_status (image bs) = 0 \<longrightarrow>
            11 + 2 * cc_num_intf (image bs) \<le> length bs)))"

definition complete_cycle :: "cycle \<Rightarrow> bool" where
  "complete_cycle c = (case read_res c of ReadErr \<Rightarrow> True | ReadData bs \<Rightarrow> complete bs)"

text \<open>
  A command-complete event whose sub-opcode is not index-list or whose status is not 0.
\<close>

definition mismatched :: "byte list \<Rightarrow> bool" where
  "mismatched bs =
     (pkt_opcode (image bs) = MGMT_EV_COMMAND_COMP \<and>
      (cc_opcode (image bs) \<noteq> MGMT_OP_INDEX_LIST \<or> cc_status (image bs) \<noteq> 0))"

text \<open>
  The watcher of the specification (4.2, steps 3 to 5), over the cycles of the wait: the
  first cycle that is not ignored decides.
\<close>

datatype verdict = Announced | Ignored | PollError | Timeout | ReadError

definition classify :: "int \<Rightarrow> cycle \<Rightarrow> verdict" where
  "classify target c =
     (if poll_ret c = - 1 then PollError
      else if poll_ret c = 0 then Timeout
      else if revents c AND POLLIN = 0 then Ignored
      else (case read_res c of
              ReadErr \<Rightarrow> ReadError
            | ReadData bs \<Rightarrow>
                if index_added target bs \<or> index_listed target bs then Announced else Ignored))"

fun wait_for_index :: "int \<Rightarrow> cycle list \<Rightarrow> int outcome" where
  "wait_for_index target [] = Running"
| "wait_for_index target (c # cs) =
     (case classify target c of
        Announced \<Rightarrow> Returns 0
      | Ignored \<Rightarrow> wait_for_index target cs
      | PollError \<Rightarrow> Returns (- 1)
      | Timeout \<Rightarrow> Returns (- 1)
      | ReadError \<Rightarrow> Returns (- 1))"

text \<open>
  The control socket is created, bound to the control channel of no device, and the
  index-list request is written in full.
\<close>

definition watcher_ready :: "kernel \<Rightarrow> bool" where
  "watcher_ready k =
     (0 \<le> k_socket k \<and>
      0 \<le> k_bind k (k_socket k)
            \<lparr>hci_family = AF_BLUETOOTH, hci_dev = of_nat HCI_DEV_NONE,
             hci_channel = HCI_CHANNEL_CONTROL\<rparr> \<and>
      k_write k (k_socket k) [3, 0, 255, 255, 0, 0] = 6)"

text \<open>
  How many leading bytes of \<^verbatim>\<open>ev\<close> the parse of an index-list response has read when the
  scan of \<open>num\<close> announced entries ends with the given result: the header, the five fixed
  bytes of the payload, and every entry up to the last one loaded.
\<close>

fun scan_extent :: "nat \<Rightarrow> scan_result \<Rightarrow> nat" where
  "scan_extent num (Found i) = 11 + 2 * Suc i"
| "scan_extent num NotFound = 11 + 2 * num"
| "scan_extent num (OutOfBounds i) = 11 + 2 * Suc i"

subsection \<open>Sample kernels, states and packets\<close>

definition ex_kernel :: kernel where
  "ex_kernel =
     \<lparr>k_socket = 5, k_bind = (\<lambda>fd addr. 0), k_write = (\<lambda>fd bs. int (length bs)),
      k_cycles = [], k_ioctl = (\<lambda>fd arg. 0), k_open = (\<lambda>path. 7),
      k_property_set = (\<lambda>key v. 0), k_stack = (\<lambda>i. 0)\<rparr>"

definition ex_vendor :: vendor where
  "ex_vendor =
     \<lparr>bt_vendor_callbacks = True, bt_vendor_fd = 4, hci_interface = 0,
      rfkill_en = 1, bt_hwcfg_en = 1, trace = []\<rparr>"

definition no_fds :: "bt_vendor_ch \<Rightarrow> int" where
  "no_fds ch = - 1"

definition ready :: "byte list \<Rightarrow> cycle" where
  "ready bs = \<lparr>poll_ret = 1, revents = 1, read_res = ReadData bs\<rparr>"

definition silence :: cycle where
  "silence = \<lparr>poll_ret = 0, revents = 0, read_res = ReadErr\<rparr>"

text \<open>
  An index-added event for index 0; an index-list response listing index 0; a
  command-complete event for another command; an index-list response that announces one
  index and carries none.
\<close>

definition added_0 :: "byte list" where
  "added_0 = [4, 0, 0, 0, 0, 0]"

definition listed_0 :: "byte list" where
  "listed_0 = [1, 0, 255, 255, 7, 0, 3, 0, 0, 1, 0, 0, 0]"

definition other_cc :: "byte list" where
  "other_cc = [1, 0, 255, 255, 3, 0, 5, 0, 0]"

definition short_response :: "byte list" where
  "short_response = [1, 0, 255, 255, 5, 0, 3, 0, 0, 1, 0]"

definition ones_stack :: "nat \<Rightarrow> byte" where
  "ones_stack i = 255"

text \<open>
  Four kernels: one ignores a foreign command-complete event and then lists index 0; one
  announces index 0 as added; one goes silent after a foreign event; one delivers the
  truncated response and then goes silent.
\<close>

definition k_listed :: kernel where
  "k_listed = ex_kernel\<lparr>k_cycles := [ready other_cc, ready listed_0]\<rparr>"

definition k_added :: kernel where
  "k_added = ex_kernel\<lparr>k_cycles := [ready added_0]\<rparr>"

definition k_silent :: kernel where
  "k_silent = ex_kernel\<lparr>k_cycles := [ready other_cc, silence]\<rparr>"

definition k_short :: kernel where
  "k_short = ex_kernel\<lparr>k_cycles := [ready short_response, silence]\<rparr>"

text \<open>
  An index-list response that announces 65535 indices, and a kernel that delivers it
  over a stack of ones.
\<close>

definition flood_response :: "byte list" where
  "flood_response = [1, 0, 255, 255, 5, 0, 3, 0, 0, 255, 255]"

definition k_flood :: kernel where
  "k_flood = ex_kernel\<lparr>k_cycles := [ready flood_response], k_stack := ones_stack\<rparr>"

text \<open>
  A command-complete event for another command whose payload goes on with the bytes
  1, 0, 0, 0; an index-list response cut off after its sub-opcode, so that it carries
  neither status nor \<^verbatim>\<open>num_intf\<close> nor any index; and a kernel that delivers the two and
  then goes silent.
\<close>

definition foreign_cc :: "byte list" where
  "foreign_cc = [1, 0, 255, 255, 7, 0, 5, 0, 0, 1, 0, 0, 0]"

definition truncated_list :: "byte list" where
  "truncated_list = [1, 0, 255, 255, 2, 0, 3, 0]"

definition k_stale :: kernel where
  "k_stale = ex_kernel\<lparr>k_cycles := [ready foreign_cc, ready truncated_list, silence]\<rparr>"

section \<open>Verification\<close>

subsection \<open>Traces of the leaf operations\<close>

lemma rfkill_bytes_block_record:
  "rfkill_bytes (block_record b) =
     [0, 0, 0, 0, RFKILL_TYPE_BLUETOOTH, RFKILL_OP_CHANGE_ALL, of_bool b, of_bool b]"
  by (simp add: rfkill_bytes_def block_record_def)

lemma rfkill_trace:
  "snd (bt_vendor_rfkill k (of_bool b) s) = s\<lparr>trace := trace s @
     (if k_open k ''/dev/rfkill'' < 0 then [Open ''/dev/rfkill'' (k_open k ''/dev/rfkill'')]
      else [Open ''/dev/rfkill'' (k_open k ''/dev/rfkill''),
            Write (k_open k ''/dev/rfkill'') (rfkill_bytes (block_record b))
              (k_write k (k_open k ''/dev/rfkill'') (rfkill_bytes (block_record b))),
            Close (k_open k ''/dev/rfkill'')])\<rparr>"
  by (cases b) (simp_all add: bt_vendor_rfkill_def Let_def emit_def block_record_def)

lemma rfkill_status:
  "fst (bt_vendor_rfkill k (of_bool b) s) =
     (if k_open k ''/dev/rfkill'' < 0 then - 1
      else if k_write k (k_open k ''/dev/rfkill'') (rfkill_bytes (block_record b)) < 0 then 1
      else 0)"
  by (cases b) (simp_all add: bt_vendor_rfkill_def Let_def emit_def block_record_def)

lemma hw_cfg_trace:
  "snd (bt_vendor_hw_cfg k (of_bool stop) s) = s\<lparr>trace := trace s @
     (if bt_hwcfg_en s = 0 then []
      else [PropertySet ''vendor.bluetooth.hwcfg'' (if stop then ''stop'' else ''start'')
              (k_property_set k ''vendor.bluetooth.hwcfg'' (if stop then ''stop'' else ''start''))])\<rparr>"
  by (cases stop) (simp_all add: bt_vendor_hw_cfg_def Let_def emit_def)

lemma hw_cfg_status:
  "fst (bt_vendor_hw_cfg k (of_bool stop) s) =
     (if bt_hwcfg_en s \<noteq> 0 \<and>
         k_property_set k ''vendor.bluetooth.hwcfg'' (if stop then ''stop'' else ''start'') < 0
      then 1 else 0)"
  by (cases stop) (simp_all add: bt_vendor_hw_cfg_def Let_def emit_def)

lemma new_events_append [simp]: "new_events s (s\<lparr>trace := trace s @ es\<rparr>) = es"
  by (simp add: new_events_def)

subsection \<open>The gate of the power-control opcode\<close>

text \<open>
  Claim C9. When the power-control opcode is dispatched with the radio-kill-switch flag
  disabled or with a null parameter, the operation returns status 0 and has no effect:
  the parameter and the whole state, trace included, are unchanged, so neither the
  radio-kill write nor the request to the hardware-config hook occurs, whatever the
  hardware-config flag is.
\<close>

theorem power_ctrl_gated_no_effect:
  "rfkill_en s = 0 \<or> p = NullP \<Longrightarrow>
   bt_vendor_op k BT_VND_OP_POWER_CTRL p s = (Returns 0, p, s)"
  by auto

theorem power_ctrl_gated_no_effect_witness:
  "bt_hwcfg_en (ex_vendor\<lparr>rfkill_en := 0\<rparr>) = 1 \<and>
   bt_vendor_op ex_kernel BT_VND_OP_POWER_CTRL (IntP BT_VND_PWR_ON) (ex_vendor\<lparr>rfkill_en := 0\<rparr>)
     = (Returns 0, IntP BT_VND_PWR_ON, ex_vendor\<lparr>rfkill_en := 0\<rparr>) \<and>
   bt_hwcfg_en ex_vendor = 1 \<and>
   bt_vendor_op ex_kernel BT_VND_OP_POWER_CTRL NullP ex_vendor = (Returns 0, NullP, ex_vendor)"
  using power_ctrl_gated_no_effect [of "ex_vendor\<lparr>rfkill_en := 0\<rparr>" "IntP BT_VND_PWR_ON" ex_kernel]
    power_ctrl_gated_no_effect [of ex_vendor NullP ex_kernel]
  by (simp add: ex_vendor_def)

subsection \<open>Opening the channel again\<close>

text \<open>
  Claim C10. A successful channel-open call made while a descriptor is already active
  overwrites the recorded session descriptor and all four channel slots with the newly
  created descriptor; the only call it makes is the creation of the socket, so the
  descriptor that was active before is not closed.
\<close>

theorem open_overwrites_active:
  assumes "bt_vendor_fd s \<noteq> - 1" and "0 \<le> k_socket k"
  shows "\<exists>fd_array' s'.
           bt_vendor_op k BT_VND_OP_USERIAL_OPEN (FdArrayP fd_array) s
             = (Returns 1, FdArrayP fd_array', s')
         \<and> fd_array' CH_CMD = k_socket k \<and> fd_array' CH_EVT = k_socket k
         \<and> fd_array' CH_ACL_OUT = k_socket k \<and> fd_array' CH_ACL_IN = k_socket k
         \<and> bt_vendor_fd s' = k_socket k
         \<and> new_events s s' = [Socket (k_socket k)]
         \<and> fds_closed (new_events s s') = []"
  using assms by (simp add: bt_vendor_open_def Let_def emit_def new_events_def)

theorem open_overwrites_active_witness:
  "bt_vendor_fd ex_vendor \<noteq> - 1 \<and> 0 \<le> k_socket ex_kernel \<and>
   bt_vendor_op ex_kernel BT_VND_OP_USERIAL_OPEN (FdArrayP (\<lambda>ch. - 1)) ex_vendor
     = (Returns 1, FdArrayP (\<lambda>ch. 5), ex_vendor\<lparr>bt_vendor_fd := 5, trace := [Socket 5]\<rparr>)"
proof -
  have "(\<lambda>ch. - 1 :: int)(CH_CMD := 5, CH_EVT := 5, CH_ACL_OUT := 5, CH_ACL_IN := 5) = (\<lambda>ch. 5)"
    by (rule ext) (case_tac ch, simp_all)
  then show ?thesis
    using open_overwrites_active [of ex_vendor ex_kernel "\<lambda>ch. - 1"]
    by (simp add: ex_vendor_def ex_kernel_def bt_vendor_open_def Let_def emit_def)
qed

subsection \<open>The radio kill switch\<close>

text \<open>
  Claim C7. For both values of the block flag (the dispatcher passes 1 to block and 0 to
  unblock), once the kill-switch device is open the radio-kill operation writes exactly
  one record of eight bytes with index 0, type Bluetooth, operation change-all and with
  soft and hard both 1 when blocking and both 0 when unblocking, and then closes the
  device; a failed write gives a non-zero status, any other write gives 0, and in both
  cases the descriptor that was opened is the one closed last.
\<close>

theorem rfkill_writes_block_record:
  assumes "0 \<le> k_open k ''/dev/rfkill''"
  shows "let fd = k_open k ''/dev/rfkill'';
             len = k_write k fd (rfkill_bytes (block_record b));
             (ret, s') = bt_vendor_rfkill k (of_bool b) s
         in new_events s s' =
              [Open ''/dev/rfkill'' fd, Write fd (rfkill_bytes (block_record b)) len, Close fd]
          \<and> rfkill_bytes (block_record b) =
              [0, 0, 0, 0, RFKILL_TYPE_BLUETOOTH, RFKILL_OP_CHANGE_ALL, of_bool b, of_bool b]
          \<and> (len < 0 \<longrightarrow> ret \<noteq> 0) \<and> (0 \<le> len \<longrightarrow> ret = 0)
          \<and> fds_created (new_events s s') = [fd] \<and> fds_closed (new_events s s') = [fd]"
  using assms rfkill_trace [of k b s] rfkill_status [of k b s]
  by (simp add: Let_def split_beta rfkill_bytes_block_record)

theorem rfkill_writes_block_record_witness:
  "0 \<le> k_open ex_kernel ''/dev/rfkill'' \<and>
   bt_vendor_rfkill ex_kernel 1 ex_vendor =
     (0, ex_vendor\<lparr>trace := [Open ''/dev/rfkill'' 7, Write 7 [0, 0, 0, 0, 2, 3, 1, 1] 8, Close 7]\<rparr>) \<and>
   0 \<le> k_open (ex_kernel\<lparr>k_write := \<lambda>fd bs. - 1\<rparr>) ''/dev/rfkill'' \<and>
   bt_vendor_rfkill (ex_kernel\<lparr>k_write := \<lambda>fd bs. - 1\<rparr>) 0 ex_vendor =
     (1, ex_vendor\<lparr>trace := [Open ''/dev/rfkill'' 7, Write 7 [0, 0, 0, 0, 2, 3, 0, 0] (- 1), Close 7]\<rparr>)"
  using rfkill_writes_block_record [of ex_kernel True ex_vendor]
    rfkill_writes_block_record [of "ex_kernel\<lparr>k_write := \<lambda>fd bs. - 1\<rparr>" False ex_vendor]
  by (simp add: ex_kernel_def ex_vendor_def bt_vendor_rfkill_def Let_def emit_def
      rfkill_bytes_def RFKILL_TYPE_BLUETOOTH_def RFKILL_OP_CHANGE_ALL_def)

subsection \<open>One turn of the wait loop\<close>

lemma wait_loop_poll_stop:
  "poll_ret c = - 1 \<or> poll_ret c = 0 \<Longrightarrow>
   wait_loop fd t ev (c # cs) s = (Returns (- 1), emit (Poll fd MGMT_EV_POLL_TIMEOUT (poll_ret c)) s)"
  by (auto simp: Let_def)

lemma wait_loop_no_pollin:
  "poll_ret c \<noteq> - 1 \<Longrightarrow> poll_ret c \<noteq> 0 \<Longrightarrow> revents c AND POLLIN = 0 \<Longrightarrow>
   wait_loop fd t ev (c # cs) s =
     wait_loop fd t ev cs (emit (Poll fd MGMT_EV_POLL_TIMEOUT (poll_ret c)) s)"
  by (simp add: Let_def)

lemma wait_loop_read_err:
  "poll_ret c \<noteq> - 1 \<Longrightarrow> poll_ret c \<noteq> 0 \<Longrightarrow> revents c AND POLLIN \<noteq> 0 \<Longrightarrow>
   read_res c = ReadErr \<Longrightarrow>
   wait_loop fd t ev (c # cs) s =
     (Returns (- 1),
      emit (Read fd sizeof_mgmt_pkt (- 1)) (emit (Poll fd MGMT_EV_POLL_TIMEOUT (poll_ret c)) s))"
  by (simp add: Let_def)

lemma wait_loop_read_data:
  "poll_ret c \<noteq> - 1 \<Longrightarrow> poll_ret c \<noteq> 0 \<Longrightarrow> revents c AND POLLIN \<noteq> 0 \<Longrightarrow>
   read_res c = ReadData bs \<Longrightarrow>
   wait_loop fd t ev (c # cs) s =
     (case check_event t (store (take sizeof_mgmt_pkt bs) ev) of
        Success \<Rightarrow>
          (Returns 0,
           emit (Read fd sizeof_mgmt_pkt (int (length (take sizeof_mgmt_pkt bs))))
             (emit (Poll fd MGMT_EV_POLL_TIMEOUT (poll_ret c)) s))
      | Continue \<Rightarrow>
          wait_loop fd t (store (take sizeof_mgmt_pkt bs) ev) cs
            (emit (Read fd sizeof_mgmt_pkt (int (length (take sizeof_mgmt_pkt bs))))
               (emit (Poll fd MGMT_EV_POLL_TIMEOUT (poll_ret c)) s))
      | Fault \<Rightarrow>
          (Undefined,
           emit (Read fd sizeof_mgmt_pkt (int (length (take sizeof_mgmt_pkt bs))))
             (emit (Poll fd MGMT_EV_POLL_TIMEOUT (poll_ret c)) s)))"
  by (simp add: Let_def)

lemma cycle_cases:
  obtains (stop) "poll_ret c = - 1 \<or> poll_ret c = 0"
  | (nopollin) "poll_ret c \<noteq> - 1" "poll_ret c \<noteq> 0" "revents c AND POLLIN = 0"
  | (rerr) "poll_ret c \<noteq> - 1" "poll_ret c \<noteq> 0" "revents c AND POLLIN \<noteq> 0" "read_res c = ReadErr"
  | (rdata) bs where "poll_ret c \<noteq> - 1" "poll_ret c \<noteq> 0" "revents c AND POLLIN \<noteq> 0"
      "read_res c = ReadData bs"
  by (cases "read_res c") auto

declare wait_loop.simps(2) [simp del]

text \<open>The loop only polls and reads on its socket, and touches nothing but the trace.\<close>

lemma wait_loop_trace:
  "\<exists>evs. snd (wait_loop fd t ev cs s) = s\<lparr>trace := trace s @ evs\<rparr> \<and> list_all (watcher_event fd) evs"
proof (induction cs arbitrary: ev s)
  case Nil
  show ?case by (rule exI [of _ "[]"]) simp
next
  case (Cons c cs)
  let ?p = "Poll fd MGMT_EV_POLL_TIMEOUT (poll_ret c)"
  let ?s1 = "emit ?p s"
  show ?case
  proof (cases c rule: cycle_cases)
    case stop
    have eq: "wait_loop fd t ev (c # cs) s = (Returns (- 1), ?s1)"
      using stop by (rule wait_loop_poll_stop)
    show ?thesis
      unfolding eq by (rule exI [of _ "[?p]"]) (simp add: emit_def)
  next
    case nopollin
    have eq: "wait_loop fd t ev (c # cs) s = wait_loop fd t ev cs ?s1"
      using nopollin by (rule wait_loop_no_pollin)
    from Cons.IH [of ev ?s1] obtain evs where
      e: "snd (wait_loop fd t ev cs ?s1) = ?s1\<lparr>trace := trace ?s1 @ evs\<rparr>"
         "list_all (watcher_event fd) evs"
      by blast
    show ?thesis
      unfolding eq using e by (intro exI [of _ "?p # evs"]) (simp add: emit_def)
  next
    case rerr
    have eq: "wait_loop fd t ev (c # cs) s = (Returns (- 1), emit (Read fd sizeof_mgmt_pkt (- 1)) ?s1)"
      using rerr by (rule wait_loop_read_err)
    show ?thesis
      unfolding eq by (rule exI [of _ "[?p, Read fd sizeof_mgmt_pkt (- 1)]"]) (simp add: emit_def)
  next
    case (rdata bs)
    let ?got = "take sizeof_mgmt_pkt bs"
    let ?r = "Read fd sizeof_mgmt_pkt (int (length ?got))"
    let ?s2 = "emit ?r ?s1"
    note eq = wait_loop_read_data [OF rdata, of fd t ev cs s]
    from Cons.IH [of "store ?got ev" ?s2] obtain evs where
      e: "snd (wait_loop fd t (store ?got ev) cs ?s2) = ?s2\<lparr>trace := trace ?s2 @ evs\<rparr>"
         "list_all (watcher_event fd) evs"
      by blast
    show ?thesis
    proof (cases "check_event t (store ?got ev)")
      case Continue
      show ?thesis
        unfolding eq using e Continue by (intro exI [of _ "?p # ?r # evs"]) (simp add: emit_def)
    next
      case Success
      show ?thesis
        unfolding eq using Success by (intro exI [of _ "[?p, ?r]"]) (simp add: emit_def)
    next
      case Fault
      show ?thesis
        unfolding eq using Fault by (intro exI [of _ "[?p, ?r]"]) (simp add: emit_def)
    qed
  qed
qed

subsection \<open>The scan of the index sequence\<close>

lemma le16_store: "Suc off < length bs \<Longrightarrow> le16 (store bs ev) off = le16 (image bs) off"
  by (simp add: le16_def store_def image_def)

lemma scan_index_sound:
  "scan_index ev t i n = Found j \<Longrightarrow> i \<le> j \<and> j < i + n \<and> int (cc_index ev j) = t"
proof (induction n arbitrary: i)
  case 0
  then show ?case by simp
next
  case (Suc n)
  show ?case
  proof (cases "int (cc_index ev i) = t")
    case True
    with Suc.prems show ?thesis by (simp split: if_splits)
  next
    case False
    with Suc.prems have "scan_index ev t (Suc i) n = Found j" by (simp split: if_splits)
    from Suc.IH [OF this] show ?thesis by simp
  qed
qed

lemma scan_index_NotFound:
  "scan_index ev t i n = NotFound \<Longrightarrow> \<forall>j. i \<le> j \<and> j < i + n \<longrightarrow> int (cc_index ev j) \<noteq> t"
proof (induction n arbitrary: i)
  case 0
  then show ?case by simp
next
  case (Suc n)
  from Suc.prems have a: "int (cc_index ev i) \<noteq> t" and b: "scan_index ev t (Suc i) n = NotFound"
    by (auto split: if_splits)
  from Suc.IH [OF b] a show ?case
    by (metis Suc_leI add_Suc_shift le_neq_implies_less)
qed

lemma scan_index_in_bounds:
  "11 + 2 * (i + n) \<le> sizeof_mgmt_pkt \<Longrightarrow> scan_index ev t i n \<noteq> OutOfBounds j"
  by (induction n arbitrary: i) auto

lemma scan_index_cong:
  "(\<And>j. i \<le> j \<Longrightarrow> j < i + n \<Longrightarrow> cc_index ev j = cc_index ev' j) \<Longrightarrow>
   scan_index ev t i n = scan_index ev' t i n"
  by (induction n arbitrary: i) auto

lemma scan_index_found_iff:
  assumes "11 + 2 * (i + n) \<le> sizeof_mgmt_pkt"
  shows "(\<exists>j. scan_index ev t i n = Found j) \<longleftrightarrow>
         (\<exists>j. i \<le> j \<and> j < i + n \<and> int (cc_index ev j) = t)"
proof
  assume "\<exists>j. scan_index ev t i n = Found j"
  then show "\<exists>j. i \<le> j \<and> j < i + n \<and> int (cc_index ev j) = t"
    using scan_index_sound by blast
next
  assume r: "\<exists>j. i \<le> j \<and> j < i + n \<and> int (cc_index ev j) = t"
  show "\<exists>j. scan_index ev t i n = Found j"
  proof (cases "scan_index ev t i n")
    case (Found j)
    then show ?thesis by blast
  next
    case NotFound
    from scan_index_NotFound [OF this] r show ?thesis by blast
  next
    case (OutOfBounds j)
    with scan_index_in_bounds [OF assms] show ?thesis by blast
  qed
qed

text \<open>
  On a complete packet the loop body reads received bytes only, and decides as the
  specification says.
\<close>

lemma complete_fields:
  assumes c: "complete bs"
  shows "pkt_opcode (store bs ev) = pkt_opcode (image bs)"
    and "pkt_index (store bs ev) = pkt_index (image bs)"
    and "pkt_opcode (image bs) = MGMT_EV_COMMAND_COMP \<Longrightarrow> cc_opcode (store bs ev) = cc_opcode (image bs)"
    and "pkt_opcode (image bs) = MGMT_EV_COMMAND_COMP \<Longrightarrow> cc_status (store bs ev) = cc_status (image bs)"
  using c by (simp_all add: complete_def pkt_opcode_def pkt_index_def cc_opcode_def le16_store)
    (simp add: cc_status_def store_def image_def)

lemma complete_entries:
  assumes c: "complete bs"
    and il: "pkt_opcode (image bs) = MGMT_EV_COMMAND_COMP" "cc_opcode (image bs) = MGMT_OP_INDEX_LIST"
      "cc_status (image bs) = 0"
  shows "cc_num_intf (store bs ev) = cc_num_intf (image bs)"
    and "scan_index (store bs ev) t 0 (cc_num_intf (image bs)) = scan_index (image bs) t 0 (cc_num_intf (image bs))"
    and "11 + 2 * (0 + cc_num_intf (image bs)) \<le> sizeof_mgmt_pkt"
    and "11 + 2 * cc_num_intf (image bs) \<le> length bs"
proof -
  from c il show ln: "11 + 2 * cc_num_intf (image bs) \<le> length bs" by (simp add: complete_def)
  from c have "length bs \<le> sizeof_mgmt_pkt" by (simp add: complete_def)
  with ln show "11 + 2 * (0 + cc_num_intf (image bs)) \<le> sizeof_mgmt_pkt" by simp
  show "cc_num_intf (store bs ev) = cc_num_intf (image bs)"
    using ln by (simp add: cc_num_intf_def le16_store)
  have "\<And>j. j < cc_num_intf (image bs) \<Longrightarrow> cc_index (store bs ev) j = cc_index (image bs) j"
    using ln by (simp add: cc_index_def le16_store)
  then show "scan_index (store bs ev) t 0 (cc_num_intf (image bs)) = scan_index (image bs) t 0 (cc_num_intf (image bs))"
    by (intro scan_index_cong) simp
qed

lemma check_event_complete:
  assumes c: "complete bs"
  shows "check_event t (store bs ev) =
           (if index_added t bs \<or> index_listed t bs then Success else Continue)"
proof -
  let ?ev = "store bs ev" and ?im = "image bs"
  note f = complete_fields [OF c, of ev]
  show ?thesis
  proof (cases "pkt_opcode ?im = MGMT_EV_COMMAND_COMP")
    case False
    then show ?thesis
      by (simp add: check_event_def f(1,2) index_added_def index_listed_def)
  next
    case True
    then have na: "\<not> index_added t bs"
      by (simp add: index_added_def MGMT_EV_COMMAND_COMP_def MGMT_EV_INDEX_ADDED_def)
    note cop = f(3) [OF True] and st = f(4) [OF True]
    show ?thesis
    proof (cases "cc_opcode ?im = MGMT_OP_INDEX_LIST \<and> cc_status ?im = 0")
      case False
      then show ?thesis
        using True na
        by (auto simp add: check_event_def f(1,2) cop st index_listed_def
            MGMT_EV_COMMAND_COMP_def MGMT_EV_INDEX_ADDED_def)
    next
      case il: True
      then have il1: "cc_opcode ?im = MGMT_OP_INDEX_LIST" and il2: "cc_status ?im = 0" by simp_all
      note e = complete_entries [OF c True il1 il2]
      have listed: "index_listed t bs \<longleftrightarrow> (\<exists>j. scan_index ?im t 0 (cc_num_intf ?im) = Found j)"
        unfolding scan_index_found_iff [OF e(3)]
        using True il by (auto simp: index_listed_def index_sequence_def)
      have noob: "\<And>j. scan_index ?im t 0 (cc_num_intf ?im) \<noteq> OutOfBounds j"
        using scan_index_in_bounds [OF e(3)] by simp
      have zero: "cc_num_intf ?im = 0 \<Longrightarrow> scan_index ?im t 0 (cc_num_intf ?im) = NotFound"
        by simp
      have pos: "\<And>j. scan_index ?im t 0 (cc_num_intf ?im) = Found j \<Longrightarrow> 0 < cc_num_intf ?im"
        using scan_index_sound [of ?im t 0 "cc_num_intf ?im"] by fastforce
      show ?thesis
        using True il na noob zero pos
        by (cases "scan_index ?im t 0 (cc_num_intf ?im)")
           (auto simp add: check_event_def f(1,2) cop st e(1,2) listed
              MGMT_EV_COMMAND_COMP_def MGMT_EV_INDEX_ADDED_def)
    qed
  qed
qed

subsection \<open>The wait loop against the watcher of the specification\<close>

lemma wait_loop_refines:
  "list_all complete_cycle cs \<Longrightarrow> fst (wait_loop fd t ev cs s) = wait_for_index t cs"
proof (induction cs arbitrary: ev s)
  case Nil
  show ?case by simp
next
  case (Cons c cs)
  from Cons.prems have cc: "complete_cycle c" and rest: "list_all complete_cycle cs" by simp_all
  show ?case
  proof (cases c rule: cycle_cases)
    case stop
    then show ?thesis
      by (auto simp add: wait_loop_poll_stop classify_def)
  next
    case nopollin
    then show ?thesis
      using Cons.IH [OF rest] by (simp add: wait_loop_no_pollin classify_def)
  next
    case rerr
    then show ?thesis
      by (simp add: wait_loop_read_err classify_def)
  next
    case (rdata bs)
    from cc rdata have cb: "complete bs" by (simp add: complete_cycle_def)
    then have tk: "take sizeof_mgmt_pkt bs = bs" by (simp add: complete_def)
    have cl: "classify t c = (if index_added t bs \<or> index_listed t bs then Announced else Ignored)"
      using rdata by (simp add: classify_def)
    show ?thesis
      unfolding wait_loop_read_data [OF rdata] tk check_event_complete [OF cb]
      using Cons.IH [OF rest] by (simp add: cl)
  qed
qed

lemma wait_for_index_success_iff:
  "wait_for_index t cs = Returns 0 \<longleftrightarrow>
     (\<exists>pre c post. cs = pre @ c # post \<and> list_all (\<lambda>x. classify t x = Ignored) pre
                   \<and> classify t c = Announced)"
proof (induction cs)
  case Nil
  show ?case by simp
next
  case (Cons a cs)
  show ?case
  proof (cases "classify t a")
    case Announced
    have "a # cs = [] @ a # cs \<and> list_all (\<lambda>x. classify t x = Ignored) [] \<and> classify t a = Announced"
      using Announced by simp
    then have "\<exists>pre c post. a # cs = pre @ c # post \<and> list_all (\<lambda>x. classify t x = Ignored) pre
        \<and> classify t c = Announced"
      by blast
    then show ?thesis using Announced by simp
  next
    case Ignored
    have "(\<exists>pre c post. a # cs = pre @ c # post \<and> list_all (\<lambda>x. classify t x = Ignored) pre
              \<and> classify t c = Announced)
        \<longleftrightarrow> (\<exists>pre c post. cs = pre @ c # post \<and> list_all (\<lambda>x. classify t x = Ignored) pre
              \<and> classify t c = Announced)" (is "?L \<longleftrightarrow> ?R")
    proof
      assume ?L
      then obtain pre c post where p: "a # cs = pre @ c # post"
        "list_all (\<lambda>x. classify t x = Ignored) pre" "classify t c = Announced"
        by blast
      show ?R
      proof (cases pre)
        case Nil
        with p Ignored show ?thesis by simp
      next
        case (Cons b pre')
        with p have "cs = pre' @ c # post" "list_all (\<lambda>x. classify t x = Ignored) pre'" by simp_all
        with p(3) show ?thesis by blast
      qed
    next
      assume ?R
      then obtain pre c post where p: "cs = pre @ c # post"
        "list_all (\<lambda>x. classify t x = Ignored) pre" "classify t c = Announced"
        by blast
      then have "a # cs = (a # pre) @ c # post" "list_all (\<lambda>x. classify t x = Ignored) (a # pre)"
        using Ignored by simp_all
      with p(3) show ?L by blast
    qed
    then show ?thesis using Ignored Cons.IH by simp
  next
    case PollError
    have "\<not> (\<exists>pre c post. a # cs = pre @ c # post \<and> list_all (\<lambda>x. classify t x = Ignored) pre
        \<and> classify t c = Announced)"
    proof
      assume "\<exists>pre c post. a # cs = pre @ c # post \<and> list_all (\<lambda>x. classify t x = Ignored) pre
        \<and> classify t c = Announced"
      then obtain pre c post where p: "a # cs = pre @ c # post"
        "list_all (\<lambda>x. classify t x = Ignored) pre" "classify t c = Announced"
        by blast
      then show False using PollError by (cases pre) simp_all
    qed
    then show ?thesis using PollError by simp
  next
    case Timeout
    have "\<not> (\<exists>pre c post. a # cs = pre @ c # post \<and> list_all (\<lambda>x. classify t x = Ignored) pre
        \<and> classify t c = Announced)"
    proof
      assume "\<exists>pre c post. a # cs = pre @ c # post \<and> list_all (\<lambda>x. classify t x = Ignored) pre
        \<and> classify t c = Announced"
      then obtain pre c post where p: "a # cs = pre @ c # post"
        "list_all (\<lambda>x. classify t x = Ignored) pre" "classify t c = Announced"
        by blast
      then show False using Timeout by (cases pre) simp_all
    qed
    then show ?thesis using Timeout by simp
  next
    case ReadError
    have "\<not> (\<exists>pre c post. a # cs = pre @ c # post \<and> list_all (\<lambda>x. classify t x = Ignored) pre
        \<and> classify t c = Announced)"
    proof
      assume "\<exists>pre c post. a # cs = pre @ c # post \<and> list_all (\<lambda>x. classify t x = Ignored) pre
        \<and> classify t c = Announced"
      then obtain pre c post where p: "a # cs = pre @ c # post"
        "list_all (\<lambda>x. classify t x = Ignored) pre" "classify t c = Announced"
        by blast
      then show False using ReadError by (cases pre) simp_all
    qed
    then show ?thesis using ReadError by simp
  qed
qed

lemma wait_for_index_skip:
  "list_all (\<lambda>x. classify t x = Ignored) pre \<Longrightarrow>
   wait_for_index t (pre @ cs) = wait_for_index t cs"
  by (induction pre) simp_all

lemma wait_for_index_settles:
  "list_ex (\<lambda>c. classify t c \<noteq> Ignored) cs \<Longrightarrow> \<exists>r. wait_for_index t cs = Returns r"
proof (induction cs)
  case Nil
  then show ?case by simp
next
  case (Cons a cs)
  then show ?case by (cases "classify t a") simp_all
qed

subsection \<open>The index watcher as a whole\<close>

lemma request_hdr:
  "map (index_list_request k) [0 ..< sizeof_mgmt_pkt - MGMT_EV_SIZE_MAX] = [3, 0, 255, 255, 0, 0]"
proof -
  have "[0 ..< sizeof_mgmt_pkt - MGMT_EV_SIZE_MAX] = [0, 1, 2, 3, 4, 5]"
    by (simp add: sizeof_mgmt_pkt_def upt_rec)
  then show ?thesis
    by (simp add: index_list_request_def store_def put16_def MGMT_OP_INDEX_LIST_def HCI_DEV_NONE_def)
qed

lemma wait_hcidev_no_socket:
  "k_socket k < 0 \<Longrightarrow>
   bt_vendor_wait_hcidev k s = (Returns (- 1), s\<lparr>trace := trace s @ [Socket (k_socket k)]\<rparr>)"
  by (simp add: bt_vendor_wait_hcidev_def Let_def emit_def)

lemma wait_hcidev_not_ready:
  "\<not> watcher_ready k \<Longrightarrow> fst (bt_vendor_wait_hcidev k s) = Returns (- 1)"
  by (auto simp add: bt_vendor_wait_hcidev_def Let_def watcher_ready_def request_hdr)

lemma wait_hcidev_ready:
  assumes "watcher_ready k"
  shows "fst (bt_vendor_wait_hcidev k s) =
         fst (wait_loop (k_socket k) (hci_interface s) (index_list_request k) (k_cycles k)
               (s\<lparr>trace := trace s @
                  [Socket (k_socket k),
                   Bind (k_socket k) \<lparr>hci_family = AF_BLUETOOTH, hci_dev = of_nat HCI_DEV_NONE,
                     hci_channel = HCI_CHANNEL_CONTROL\<rparr>
                     (k_bind k (k_socket k) \<lparr>hci_family = AF_BLUETOOTH, hci_dev = of_nat HCI_DEV_NONE,
                        hci_channel = HCI_CHANNEL_CONTROL\<rparr>),
                   Write (k_socket k) [3, 0, 255, 255, 0, 0] 6]\<rparr>))"
  using assms
  by (simp add: bt_vendor_wait_hcidev_def Let_def watcher_ready_def request_hdr emit_def
      split: prod.splits outcome.splits)

lemma wait_hcidev_refines:
  "watcher_ready k \<Longrightarrow> list_all complete_cycle (k_cycles k) \<Longrightarrow>
   fst (bt_vendor_wait_hcidev k s) = wait_for_index (hci_interface s) (k_cycles k)"
  by (simp add: wait_hcidev_ready wait_loop_refines)

text \<open>
  The shape of the watcher's trace once the socket exists: the socket, calls on that
  socket, and a final close exactly when the function returns.
\<close>

lemma wait_hcidev_shape:
  assumes "0 \<le> k_socket k"
  shows "\<exists>evs. snd (bt_vendor_wait_hcidev k s) =
           s\<lparr>trace := trace s @ Socket (k_socket k) # evs @
               (case fst (bt_vendor_wait_hcidev k s) of
                  Returns r \<Rightarrow> [Close (k_socket k)] | Running \<Rightarrow> [] | Undefined \<Rightarrow> [])\<rparr>
         \<and> list_all (watcher_event (k_socket k)) evs"
proof -
  let ?fd = "k_socket k"
  let ?addr = "\<lparr>hci_family = AF_BLUETOOTH, hci_dev = of_nat HCI_DEV_NONE, hci_channel = HCI_CHANNEL_CONTROL\<rparr>"
  let ?b = "Bind ?fd ?addr (k_bind k ?fd ?addr)"
  let ?w = "Write ?fd [3, 0, 255, 255, 0, 0] (k_write k ?fd [3, 0, 255, 255, 0, 0])"
  show ?thesis
  proof (cases "k_bind k ?fd ?addr < 0")
    case True
    show ?thesis
      using assms True
      by (intro exI [of _ "[?b]"]) (simp add: bt_vendor_wait_hcidev_def Let_def emit_def)
  next
    case nb: False
    show ?thesis
    proof (cases "k_write k ?fd [3, 0, 255, 255, 0, 0] = 6")
      case False
      show ?thesis
        using assms nb False
        by (intro exI [of _ "[?b, ?w]"])
           (simp add: bt_vendor_wait_hcidev_def Let_def emit_def request_hdr)
    next
      case True
      let ?s3 = "s\<lparr>trace := trace s @ [Socket ?fd, ?b, ?w]\<rparr>"
      let ?loop = "wait_loop ?fd (hci_interface s) (index_list_request k) (k_cycles k) ?s3"
      obtain evs where e: "snd ?loop = ?s3\<lparr>trace := trace ?s3 @ evs\<rparr>"
          "list_all (watcher_event ?fd) evs"
        using wait_loop_trace [of ?fd "hci_interface s" "index_list_request k" "k_cycles k" ?s3]
        by blast
      have unf: "bt_vendor_wait_hcidev k s =
          (case ?loop of
             (Returns ret, s4) \<Rightarrow> (Returns ret, emit (Close ?fd) s4)
           | (Running, s4) \<Rightarrow> (Running, s4)
           | (Undefined, s4) \<Rightarrow> (Undefined, s4))"
        using assms nb True
        by (simp add: bt_vendor_wait_hcidev_def Let_def emit_def request_hdr)
      obtain x s4 where l: "?loop = (x, s4)" by (cases ?loop)
      with e have s4: "s4 = s\<lparr>trace := trace s @ [Socket ?fd, ?b, ?w] @ evs\<rparr>" by simp
      show ?thesis
        unfolding unf l using e(2) s4
        by (intro exI [of _ "[?b, ?w] @ evs"]) (cases x; simp add: emit_def)
    qed
  qed
qed

subsection \<open>Evaluating sample runs\<close>

lemma request_hdr6:
  "map (index_list_request k) [0 ..< 6] = [3, 0, 255, 255, 0, 0]"
  using request_hdr [of k] by (simp add: sizeof_mgmt_pkt_def)

lemma request_data: "6 \<le> i \<Longrightarrow> index_list_request k i = k_stack k i"
  by (simp add: index_list_request_def store_def put16_def)

lemmas run_defs =
  request_hdr6 request_data bt_vendor_wait_hcidev_def ex_kernel_def ex_vendor_def Let_def emit_def new_events_def
  request_hdr wait_loop.simps(2) ready_def silence_def other_cc_def listed_0_def added_0_def
  short_response_def ones_stack_def POLLIN_def
  sizeof_mgmt_pkt_def MGMT_EV_SIZE_MAX_def check_event_def pkt_opcode_def pkt_index_def
  cc_opcode_def cc_status_def cc_num_intf_def cc_index_def le16_def store_def
  MGMT_EV_INDEX_ADDED_def MGMT_EV_COMMAND_COMP_def MGMT_OP_INDEX_LIST_def

lemma run_listed:
  "bt_vendor_wait_hcidev k_listed ex_vendor =
     (Returns 0,
      ex_vendor\<lparr>trace :=
        [Socket 5,
         Bind 5 \<lparr>hci_family = AF_BLUETOOTH, hci_dev = 65535, hci_channel = HCI_CHANNEL_CONTROL\<rparr> 0,
         Write 5 [3, 0, 255, 255, 0, 0] 6,
         Poll 5 MGMT_EV_POLL_TIMEOUT 1, Read 5 1030 9,
         Poll 5 MGMT_EV_POLL_TIMEOUT 1, Read 5 1030 13,
         Close 5]\<rparr>)"
  by (simp add: k_listed_def run_defs HCI_DEV_NONE_def)


lemma run_silent:
  "bt_vendor_wait_hcidev k_silent ex_vendor =
     (Returns (- 1),
      ex_vendor\<lparr>trace :=
        [Socket 5,
         Bind 5 \<lparr>hci_family = AF_BLUETOOTH, hci_dev = 65535, hci_channel = HCI_CHANNEL_CONTROL\<rparr> 0,
         Write 5 [3, 0, 255, 255, 0, 0] 6,
         Poll 5 MGMT_EV_POLL_TIMEOUT 1, Read 5 1030 9,
         Poll 5 MGMT_EV_POLL_TIMEOUT 0,
         Close 5]\<rparr>)"
  by (simp add: k_silent_def run_defs HCI_DEV_NONE_def)

lemma run_short:
  "bt_vendor_wait_hcidev k_short ex_vendor =
     (Returns 0,
      ex_vendor\<lparr>trace :=
        [Socket 5,
         Bind 5 \<lparr>hci_family = AF_BLUETOOTH, hci_dev = 65535, hci_channel = HCI_CHANNEL_CONTROL\<rparr> 0,
         Write 5 [3, 0, 255, 255, 0, 0] 6,
         Poll 5 MGMT_EV_POLL_TIMEOUT 1, Read 5 1030 11,
         Close 5]\<rparr>)"
  by (simp add: k_short_def run_defs HCI_DEV_NONE_def)

lemma run_short_ones:
  "bt_vendor_wait_hcidev (k_short\<lparr>k_stack := ones_stack\<rparr>) ex_vendor =
     (Returns (- 1),
      ex_vendor\<lparr>trace :=
        [Socket 5,
         Bind 5 \<lparr>hci_family = AF_BLUETOOTH, hci_dev = 65535, hci_channel = HCI_CHANNEL_CONTROL\<rparr> 0,
         Write 5 [3, 0, 255, 255, 0, 0] 6,
         Poll 5 MGMT_EV_POLL_TIMEOUT 1, Read 5 1030 11,
         Poll 5 MGMT_EV_POLL_TIMEOUT 0,
         Close 5]\<rparr>)"
  by (simp add: k_short_def run_defs HCI_DEV_NONE_def)

lemmas spec_defs =
  complete_cycle_def complete_def classify_def index_added_def index_listed_def
  index_sequence_def image_def mismatched_def watcher_ready_def
  k_listed_def k_added_def k_silent_def k_short_def ex_kernel_def ex_vendor_def
  ready_def silence_def other_cc_def listed_0_def added_0_def short_response_def POLLIN_def
  sizeof_mgmt_pkt_def MGMT_EV_SIZE_MAX_def pkt_opcode_def pkt_index_def
  cc_opcode_def cc_status_def cc_num_intf_def cc_index_def le16_def
  MGMT_EV_INDEX_ADDED_def MGMT_EV_COMMAND_COMP_def MGMT_OP_INDEX_LIST_def
  AF_BLUETOOTH_def HCI_DEV_NONE_def HCI_CHANNEL_CONTROL_def

lemma sample_complete:
  "list_all complete_cycle (k_cycles k_listed)"
  "list_all complete_cycle (k_cycles k_added)"
  "list_all complete_cycle (k_cycles k_silent)"
  "\<not> list_all complete_cycle (k_cycles k_short)"
  by (simp_all add: spec_defs)

lemma sample_ready:
  "watcher_ready k_listed" "watcher_ready k_added" "watcher_ready k_silent" "watcher_ready k_short"
  by (simp_all add: spec_defs)

lemma sample_classify:
  "classify 0 (ready other_cc) = Ignored"
  "classify 0 (ready listed_0) = Announced"
  "classify 0 (ready added_0) = Announced"
  "classify 0 silence = Timeout"
  "mismatched other_cc"
  by (simp_all add: spec_defs)

subsection \<open>Properties of the watcher's trace\<close>

lemma ex_vendor_fields:
  "trace ex_vendor = []" "hci_interface ex_vendor = 0" "bt_vendor_fd ex_vendor = 4"
  "bt_vendor_callbacks ex_vendor" "rfkill_en ex_vendor = 1" "bt_hwcfg_en ex_vendor = 1"
  by (simp_all add: ex_vendor_def)

lemma poll_timeouts_append: "poll_timeouts (xs @ ys) = poll_timeouts xs @ poll_timeouts ys"
  by (induction xs rule: poll_timeouts.induct) simp_all

lemma fds_created_append: "fds_created (xs @ ys) = fds_created xs @ fds_created ys"
  by (induction xs rule: fds_created.induct) simp_all

lemma fds_closed_append: "fds_closed (xs @ ys) = fds_closed xs @ fds_closed ys"
  by (induction xs rule: fds_closed.induct) simp_all


lemma watcher_events_polls:
  "list_all (watcher_event fd) evs \<Longrightarrow> \<forall>timeout \<in> set (poll_timeouts evs). timeout = MGMT_EV_POLL_TIMEOUT"
  by (induction evs rule: poll_timeouts.induct) simp_all

lemma watcher_events_quiet:
  "list_all (watcher_event fd) evs \<Longrightarrow>
   fds_created evs = [] \<and> fds_closed evs = [] \<and> callbacks_of evs = []"
  by (induction evs rule: poll_timeouts.induct) simp_all

text \<open>
  Claim C8. Every call of poll that the index watcher makes, in a run of any length and
  whether or not the run has ended, is made with the one constant
  \<open>MGMT_EV_POLL_TIMEOUT\<close>: the budget is applied anew in every turn of the loop and is
  never decremented.
\<close>

theorem poll_budget_fixed:
  "\<forall>timeout \<in> set (poll_timeouts (new_events s (snd (bt_vendor_wait_hcidev k s)))).
     timeout = MGMT_EV_POLL_TIMEOUT"
proof (cases "0 \<le> k_socket k")
  case True
  from wait_hcidev_shape [OF True, of s] obtain evs where
    e: "snd (bt_vendor_wait_hcidev k s) =
          s\<lparr>trace := trace s @ Socket (k_socket k) # evs @
            (case fst (bt_vendor_wait_hcidev k s) of
               Returns r \<Rightarrow> [Close (k_socket k)] | Running \<Rightarrow> [] | Undefined \<Rightarrow> [])\<rparr>"
       "list_all (watcher_event (k_socket k)) evs"
    by blast
  show ?thesis
    unfolding e(1) using watcher_events_polls [OF e(2)]
    by (cases "fst (bt_vendor_wait_hcidev k s)") (simp_all add: poll_timeouts_append)
next
  case False
  then show ?thesis by (simp add: wait_hcidev_no_socket)
qed

theorem poll_budget_fixed_witness:
  "poll_timeouts (new_events ex_vendor (snd (bt_vendor_wait_hcidev k_silent ex_vendor)))
     = [MGMT_EV_POLL_TIMEOUT, MGMT_EV_POLL_TIMEOUT]
   \<and> MGMT_EV_POLL_TIMEOUT = 3000"
  using poll_budget_fixed [of ex_vendor k_silent]
  by (simp add: run_silent new_events_def ex_vendor_fields MGMT_EV_POLL_TIMEOUT_def)

text \<open>
  Claim C6. Once the index watcher has created its control socket, every return of the
  function (bind failure, failure to write the request, poll error, timeout, read error
  or success) is preceded by the close of that socket: in the trace of the call the
  socket is the only descriptor created, it is the only one closed, it is closed once,
  and the close is the last event. The function does return when the preparation fails
  and when the kernel delivers complete packets of which one is not ignored.
\<close>

theorem wait_hcidev_closes_socket:
  assumes "0 \<le> k_socket k"
  shows "(\<forall>r s'. bt_vendor_wait_hcidev k s = (Returns r, s') \<longrightarrow>
            fds_created (new_events s s') = [k_socket k]
          \<and> fds_closed (new_events s s') = [k_socket k]
          \<and> last (new_events s s') = Close (k_socket k))
       \<and> (\<not> watcher_ready k \<or>
            (list_all complete_cycle (k_cycles k) \<and>
             list_ex (\<lambda>c. classify (hci_interface s) c \<noteq> Ignored) (k_cycles k))
          \<longrightarrow> (\<exists>r. fst (bt_vendor_wait_hcidev k s) = Returns r))"
proof (intro conjI allI impI)
  fix r s'
  assume ret: "bt_vendor_wait_hcidev k s = (Returns r, s')"
  from wait_hcidev_shape [OF assms, of s] obtain evs where
    e: "snd (bt_vendor_wait_hcidev k s) =
          s\<lparr>trace := trace s @ Socket (k_socket k) # evs @
            (case fst (bt_vendor_wait_hcidev k s) of
               Returns r \<Rightarrow> [Close (k_socket k)] | Running \<Rightarrow> [] | Undefined \<Rightarrow> [])\<rparr>"
       "list_all (watcher_event (k_socket k)) evs"
    by blast
  from e(1) ret have s': "s' = s\<lparr>trace := trace s @ Socket (k_socket k) # evs @ [Close (k_socket k)]\<rparr>"
    by simp
  show "fds_created (new_events s s') = [k_socket k]"
    unfolding s' using assms watcher_events_quiet [OF e(2)] by (simp add: fds_created_append)
  show "fds_closed (new_events s s') = [k_socket k]"
    unfolding s' using watcher_events_quiet [OF e(2)] by (simp add: fds_closed_append)
  show "last (new_events s s') = Close (k_socket k)"
    unfolding s' by simp
next
  assume a: "\<not> watcher_ready k \<or>
      (list_all complete_cycle (k_cycles k) \<and>
       list_ex (\<lambda>c. classify (hci_interface s) c \<noteq> Ignored) (k_cycles k))"
  show "\<exists>r. fst (bt_vendor_wait_hcidev k s) = Returns r"
  proof (cases "watcher_ready k")
    case False
    then show ?thesis by (simp add: wait_hcidev_not_ready)
  next
    case True
    with a have c: "list_all complete_cycle (k_cycles k)"
      and d: "list_ex (\<lambda>c. classify (hci_interface s) c \<noteq> Ignored) (k_cycles k)"
      by simp_all
    show ?thesis
      unfolding wait_hcidev_refines [OF True c] using d by (rule wait_for_index_settles)
  qed
qed

theorem wait_hcidev_closes_socket_witness:
  "0 \<le> k_socket k_silent
   \<and> bt_vendor_wait_hcidev k_silent ex_vendor
       = (Returns (- 1), snd (bt_vendor_wait_hcidev k_silent ex_vendor))
   \<and> fds_created (new_events ex_vendor (snd (bt_vendor_wait_hcidev k_silent ex_vendor))) = [5]
   \<and> fds_closed (new_events ex_vendor (snd (bt_vendor_wait_hcidev k_silent ex_vendor))) = [5]
   \<and> last (new_events ex_vendor (snd (bt_vendor_wait_hcidev k_silent ex_vendor))) = Close 5
   \<and> watcher_ready k_silent \<and> list_all complete_cycle (k_cycles k_silent)
   \<and> list_ex (\<lambda>c. classify (hci_interface ex_vendor) c \<noteq> Ignored) (k_cycles k_silent)
   \<and> fst (bt_vendor_wait_hcidev k_silent ex_vendor) = Returns (- 1)"
proof -
  have k: "k_socket k_silent = 5" by (simp add: k_silent_def ex_kernel_def)
  have h: "0 \<le> k_socket k_silent" by (simp add: k)
  have c: "list_ex (\<lambda>c. classify (hci_interface ex_vendor) c \<noteq> Ignored) (k_cycles k_silent)"
    by (simp add: spec_defs)
  from wait_hcidev_closes_socket [OF h, of ex_vendor] run_silent
  have r: "fds_created (new_events ex_vendor (snd (bt_vendor_wait_hcidev k_silent ex_vendor))) = [k_socket k_silent]
      \<and> fds_closed (new_events ex_vendor (snd (bt_vendor_wait_hcidev k_silent ex_vendor))) = [k_socket k_silent]
      \<and> last (new_events ex_vendor (snd (bt_vendor_wait_hcidev k_silent ex_vendor))) = Close (k_socket k_silent)"
    by simp
  have c': "list_ex (\<lambda>c. classify 0 c \<noteq> Ignored) (k_cycles k_silent)"
    using c by (simp add: ex_vendor_fields)
  show ?thesis
    using r h c' sample_ready(3) sample_complete(3)
    by (simp add: k run_silent ex_vendor_fields)
qed

subsection \<open>When the watcher succeeds\<close>

lemma classify_Announced_iff:
  "classify t c = Announced \<longleftrightarrow>
     poll_ret c \<noteq> - 1 \<and> poll_ret c \<noteq> 0 \<and> revents c AND POLLIN \<noteq> 0 \<and>
     (\<exists>bs. read_res c = ReadData bs \<and> (index_added t bs \<or> index_listed t bs))"
  by (cases "read_res c") (auto simp add: classify_def)

lemma classify_mismatched:
  assumes "poll_ret c \<noteq> - 1" "poll_ret c \<noteq> 0" "revents c AND POLLIN \<noteq> 0"
    and "read_res c = ReadData bs" and "mismatched bs"
  shows "classify t c = Ignored"
  using assms
  by (auto simp add: classify_def mismatched_def index_added_def index_listed_def
      MGMT_EV_COMMAND_COMP_def MGMT_EV_INDEX_ADDED_def)

lemma run_stale:
  "bt_vendor_wait_hcidev k_stale ex_vendor =
     (Returns 0,
      ex_vendor\<lparr>trace :=
        [Socket 5,
         Bind 5 \<lparr>hci_family = AF_BLUETOOTH, hci_dev = 65535, hci_channel = HCI_CHANNEL_CONTROL\<rparr> 0,
         Write 5 [3, 0, 255, 255, 0, 0] 6,
         Poll 5 MGMT_EV_POLL_TIMEOUT 1, Read 5 1030 13,
         Poll 5 MGMT_EV_POLL_TIMEOUT 1, Read 5 1030 8,
         Close 5]\<rparr>)"
  by (simp add: k_stale_def foreign_cc_def truncated_list_def run_defs HCI_DEV_NONE_def)

lemma stale_spec:
  "k_cycles k_stale = [ready foreign_cc, ready truncated_list, silence]"
  "watcher_ready k_stale"
  "\<not> index_added 0 foreign_cc" "\<not> index_listed 0 foreign_cc"
  "\<not> index_added 0 truncated_list" "\<not> index_listed 0 truncated_list"
  "classify 0 (ready foreign_cc) = Ignored"
  "classify 0 (ready truncated_list) = Ignored"
  "classify 0 silence = Timeout"
  by (simp_all add: k_stale_def foreign_cc_def truncated_list_def spec_defs)

text \<open>
  Claim C4, as stated, fails when a packet is truncated. The kernel \<open>k_stale\<close> delivers a
  command-complete event for another command, then an index-list response of 8 bytes,
  then nothing. Neither event is an index-added notification for target 0 and neither
  lists it, and the third poll returns no event, so the watcher of the specification
  times out. The code returns success: the second read overwrites the first 8 bytes of
  the buffer only, and the loop body judges the status, \<^verbatim>\<open>num_intf\<close> and first index that
  the first packet left behind under the sub-opcode of the second.
\<close>

theorem stale_response_counterexample:
  "k_cycles k_stale = [ready foreign_cc, ready truncated_list, silence]
   \<and> watcher_ready k_stale
   \<and> hci_interface ex_vendor = 0
   \<and> \<not> index_added 0 foreign_cc \<and> \<not> index_listed 0 foreign_cc
   \<and> \<not> index_added 0 truncated_list \<and> \<not> index_listed 0 truncated_list
   \<and> poll_ret silence = 0
   \<and> wait_for_index 0 (k_cycles k_stale) = Returns (- 1)
   \<and> fst (bt_vendor_wait_hcidev k_stale ex_vendor) = Returns 0"
  using stale_spec
  by (simp add: run_stale ex_vendor_fields silence_def)

text \<open>
  Claim C4, amended. Let every packet the kernel delivers be complete: it carries its
  header, for a command-complete event the sub-opcode and the status, and for an
  index-list response with status 0 also \<^verbatim>\<open>num_intf\<close> and all the indices it announces.
  Then the index watcher returns 0 exactly when its socket is ready (created, bound,
  request written) and some cycle of the wait, reached through ignored cycles only, is
  a readable event that is either an index-added notification whose header index is the
  target or a command-complete event with sub-opcode index-list, status 0 and the
  target in its index sequence. A command-complete event with another sub-opcode or a
  non-zero status is ignored: the result is the one the later cycles give. If the first
  cycle that is not ignored is a poll that returns no event, the watcher returns the
  failure status.
\<close>

theorem wait_hcidev_success_iff:
  assumes "list_all complete_cycle (k_cycles k)"
  shows "(fst (bt_vendor_wait_hcidev k s) = Returns 0 \<longleftrightarrow>
            watcher_ready k \<and>
            (\<exists>pre c post bs.
               k_cycles k = pre @ c # post
             \<and> list_all (\<lambda>x. classify (hci_interface s) x = Ignored) pre
             \<and> poll_ret c \<noteq> - 1 \<and> poll_ret c \<noteq> 0 \<and> revents c AND POLLIN \<noteq> 0
             \<and> read_res c = ReadData bs
             \<and> (index_added (hci_interface s) bs \<or> index_listed (hci_interface s) bs)))
       \<and> (\<forall>pre c post bs.
             watcher_ready k \<and> k_cycles k = pre @ c # post
           \<and> list_all (\<lambda>x. classify (hci_interface s) x = Ignored) pre
           \<and> poll_ret c \<noteq> - 1 \<and> poll_ret c \<noteq> 0 \<and> revents c AND POLLIN \<noteq> 0
           \<and> read_res c = ReadData bs \<and> mismatched bs
           \<longrightarrow> fst (bt_vendor_wait_hcidev k s) = wait_for_index (hci_interface s) post)
       \<and> (\<forall>pre c post.
             watcher_ready k \<and> k_cycles k = pre @ c # post
           \<and> list_all (\<lambda>x. classify (hci_interface s) x = Ignored) pre
           \<and> poll_ret c = 0
           \<longrightarrow> fst (bt_vendor_wait_hcidev k s) = Returns (- 1))"
proof (intro conjI allI impI)
  let ?t = "hci_interface s"
  show "fst (bt_vendor_wait_hcidev k s) = Returns 0 \<longleftrightarrow>
            watcher_ready k \<and>
            (\<exists>pre c post bs.
               k_cycles k = pre @ c # post
             \<and> list_all (\<lambda>x. classify ?t x = Ignored) pre
             \<and> poll_ret c \<noteq> - 1 \<and> poll_ret c \<noteq> 0 \<and> revents c AND POLLIN \<noteq> 0
             \<and> read_res c = ReadData bs
             \<and> (index_added ?t bs \<or> index_listed ?t bs))"
  proof (cases "watcher_ready k")
    case False
    then show ?thesis by (simp add: wait_hcidev_not_ready)
  next
    case True
    have "(\<exists>pre c post. k_cycles k = pre @ c # post
             \<and> list_all (\<lambda>x. classify ?t x = Ignored) pre \<and> classify ?t c = Announced)
        \<longleftrightarrow> (\<exists>pre c post bs. k_cycles k = pre @ c # post
             \<and> list_all (\<lambda>x. classify ?t x = Ignored) pre
             \<and> poll_ret c \<noteq> - 1 \<and> poll_ret c \<noteq> 0 \<and> revents c AND POLLIN \<noteq> 0
             \<and> read_res c = ReadData bs
             \<and> (index_added ?t bs \<or> index_listed ?t bs))"
      unfolding classify_Announced_iff by blast
    then show ?thesis
      using True by (simp add: wait_hcidev_refines [OF True assms] wait_for_index_success_iff)
  qed
next
  fix pre c post bs
  let ?t = "hci_interface s"
  assume a: "watcher_ready k \<and> k_cycles k = pre @ c # post
           \<and> list_all (\<lambda>x. classify ?t x = Ignored) pre
           \<and> poll_ret c \<noteq> - 1 \<and> poll_ret c \<noteq> 0 \<and> revents c AND POLLIN \<noteq> 0
           \<and> read_res c = ReadData bs \<and> mismatched bs"
  then have ig: "classify ?t c = Ignored"
    using classify_mismatched [of c bs ?t] by simp
  from a have "fst (bt_vendor_wait_hcidev k s) = wait_for_index ?t (pre @ c # post)"
    using wait_hcidev_refines [OF _ assms, of s] by simp
  also have "\<dots> = wait_for_index ?t (c # post)"
    using a by (simp add: wait_for_index_skip)
  also have "\<dots> = wait_for_index ?t post"
    using ig by simp
  finally show "fst (bt_vendor_wait_hcidev k s) = wait_for_index ?t post" .
next
  fix pre c post
  let ?t = "hci_interface s"
  assume a: "watcher_ready k \<and> k_cycles k = pre @ c # post
           \<and> list_all (\<lambda>x. classify ?t x = Ignored) pre \<and> poll_ret c = 0"
  then have tm: "classify ?t c = Timeout" by (simp add: classify_def)
  from a have "fst (bt_vendor_wait_hcidev k s) = wait_for_index ?t (pre @ c # post)"
    using wait_hcidev_refines [OF _ assms, of s] by simp
  also have "\<dots> = wait_for_index ?t (c # post)"
    using a by (simp add: wait_for_index_skip)
  also have "\<dots> = Returns (- 1)"
    using tm by simp
  finally show "fst (bt_vendor_wait_hcidev k s) = Returns (- 1)" .
qed

theorem wait_hcidev_success_iff_witness:
  "list_all complete_cycle (k_cycles k_listed)
   \<and> watcher_ready k_listed
   \<and> k_cycles k_listed = [] @ ready other_cc # [ready listed_0]
   \<and> mismatched other_cc
   \<and> k_cycles k_listed = [ready other_cc] @ ready listed_0 # []
   \<and> classify (hci_interface ex_vendor) (ready other_cc) = Ignored
   \<and> index_listed (hci_interface ex_vendor) listed_0
   \<and> fst (bt_vendor_wait_hcidev k_listed ex_vendor) = Returns 0
   \<and> list_all complete_cycle (k_cycles k_silent)
   \<and> watcher_ready k_silent
   \<and> k_cycles k_silent = [ready other_cc] @ silence # []
   \<and> poll_ret silence = 0
   \<and> fst (bt_vendor_wait_hcidev k_silent ex_vendor) = Returns (- 1)"
proof -
  have a: "k_cycles k_listed = [] @ ready other_cc # [ready listed_0]"
    and b: "k_cycles k_listed = [ready other_cc] @ ready listed_0 # []"
    and c: "k_cycles k_silent = [ready other_cc] @ silence # []"
    by (simp_all add: k_listed_def k_silent_def ex_kernel_def)
  have d: "index_listed 0 listed_0" "poll_ret silence = 0"
    "poll_ret (ready listed_0) \<noteq> - 1" "poll_ret (ready listed_0) \<noteq> 0"
    "revents (ready listed_0) AND POLLIN \<noteq> 0" "read_res (ready listed_0) = ReadData listed_0"
    by (simp_all add: spec_defs)
  have ig: "list_all (\<lambda>x. classify 0 x = Ignored) [ready other_cc]"
    by (simp add: sample_classify)
  have ex: "\<exists>pre c post bs.
               k_cycles k_listed = pre @ c # post
             \<and> list_all (\<lambda>x. classify (hci_interface ex_vendor) x = Ignored) pre
             \<and> poll_ret c \<noteq> - 1 \<and> poll_ret c \<noteq> 0 \<and> revents c AND POLLIN \<noteq> 0
             \<and> read_res c = ReadData bs
             \<and> (index_added (hci_interface ex_vendor) bs \<or> index_listed (hci_interface ex_vendor) bs)"
    using b d ig unfolding ex_vendor_fields by blast
  have to: "watcher_ready k_silent \<and> k_cycles k_silent = [ready other_cc] @ silence # []
           \<and> list_all (\<lambda>x. classify (hci_interface ex_vendor) x = Ignored) [ready other_cc]
           \<and> poll_ret silence = 0"
    using c d ig sample_ready unfolding ex_vendor_fields by simp
  have s1: "fst (bt_vendor_wait_hcidev k_listed ex_vendor) = Returns 0"
    using wait_hcidev_success_iff [OF sample_complete(1), of ex_vendor] ex sample_ready(1) by blast
  have s2: "fst (bt_vendor_wait_hcidev k_silent ex_vendor) = Returns (- 1)"
    using wait_hcidev_success_iff [OF sample_complete(3), of ex_vendor] to by blast
  show ?thesis
    using a b c d s1 s2 sample_complete sample_ready sample_classify
    by (simp add: ex_vendor_fields)
qed

subsection \<open>The bringup sequence\<close>








subsection \<open>How far the parse of an index-list response reads\<close>

text \<open>
  A scan that meets no match and is told of more entries than \<^verbatim>\<open>ev\<close> can hold leaves
  the buffer at entry 509, whose second byte is the first byte after \<^verbatim>\<open>ev\<close>.
\<close>

lemma scan_index_overrun:
  assumes "\<And>j. i \<le> j \<Longrightarrow> int (cc_index ev j) \<noteq> t"
    and "i \<le> 509" and "509 < i + n"
  shows "scan_index ev t i n = OutOfBounds 509"
  using assms
proof (induction n arbitrary: i)
  case 0
  then show ?case by simp
next
  case (Suc n)
  show ?case
  proof (cases "i = 509")
    case True
    then show ?thesis by (simp add: sizeof_mgmt_pkt_def MGMT_EV_SIZE_MAX_def)
  next
    case False
    with Suc.prems have lt: "Suc i \<le> 509" "509 < Suc i + n" by simp_all
    have nm: "\<And>j. Suc i \<le> j \<Longrightarrow> int (cc_index ev j) \<noteq> t"
      using Suc.prems(1) by simp
    have "scan_index ev t (Suc i) n = OutOfBounds 509"
      using Suc.IH [OF nm lt] by simp
    moreover have "\<not> sizeof_mgmt_pkt < 11 + 2 * i + 2"
      using Suc.prems(2) False by (simp add: sizeof_mgmt_pkt_def MGMT_EV_SIZE_MAX_def)
    moreover have "int (cc_index ev i) \<noteq> t"
      using Suc.prems(1) [of i] by simp
    ultimately show ?thesis by simp
  qed
qed

lemma flood_entries:
  "int (cc_index (store flood_response (index_list_request k_flood)) j) \<noteq> 0"
  by (simp add: cc_index_def le16_def store_def flood_response_def request_data
      k_flood_def ex_kernel_def ones_stack_def)

lemma flood_fault:
  "check_event 0 (store flood_response (index_list_request k_flood)) = Fault"
proof -
  let ?ev = "store flood_response (index_list_request k_flood)"
  have v: "pkt_opcode ?ev = MGMT_EV_COMMAND_COMP" "cc_opcode ?ev = MGMT_OP_INDEX_LIST"
    "cc_status ?ev = 0" "cc_num_intf ?ev = 65535"
    by (simp_all add: pkt_opcode_def cc_opcode_def cc_status_def cc_num_intf_def le16_def
        store_def flood_response_def MGMT_EV_COMMAND_COMP_def MGMT_OP_INDEX_LIST_def)
  have f: "scan_index ?ev 0 0 65535 = OutOfBounds 509"
  proof (rule scan_index_overrun)
    fix j :: nat
    show "int (cc_index ?ev j) \<noteq> 0" by (rule flood_entries)
  qed simp_all
  show ?thesis
    unfolding check_event_def v f
    by (simp add: MGMT_EV_COMMAND_COMP_def MGMT_EV_INDEX_ADDED_def)
qed

lemma run_flood:
  "fst (bt_vendor_wait_hcidev k_flood ex_vendor) = Undefined"
proof -
  have r: "watcher_ready k_flood"
    by (simp add: watcher_ready_def k_flood_def ex_kernel_def)
  have c: "k_cycles k_flood = [ready flood_response]" "k_socket k_flood = 5"
    by (simp_all add: k_flood_def ex_kernel_def)
  have p: "poll_ret (ready flood_response) \<noteq> - 1" "poll_ret (ready flood_response) \<noteq> 0"
    "revents (ready flood_response) AND POLLIN \<noteq> 0"
    "read_res (ready flood_response) = ReadData flood_response"
    by (simp_all add: ready_def POLLIN_def)
  have t: "take sizeof_mgmt_pkt flood_response = flood_response"
    by (simp add: flood_response_def sizeof_mgmt_pkt_def MGMT_EV_SIZE_MAX_def)
  show ?thesis
    unfolding wait_hcidev_ready [OF r] c ex_vendor_fields wait_loop_read_data [OF p] t flood_fault
    by simp
qed

text \<open>
  Claim C2, as stated, fails: the watcher never compares \<^verbatim>\<open>num_intf\<close> with the number of
  bytes it received. The response \<open>short_response\<close> is 11 bytes long, announces one index
  and carries none; the scan loads entry 0 from offsets 11 and 12 of the buffer, which
  the read did not write, and the verdict of the whole watcher follows what the stack
  held there: success over a zeroed stack for target 0, failure over a stack of ones.
  The response \<open>flood_response\<close> announces 65535 indices: the scan runs through the
  whole buffer and on to a read outside it.
\<close>

theorem index_scan_beyond_received_counterexample:
  "length short_response = 11
   \<and> cc_num_intf (store short_response (index_list_request k_short)) = 1
   \<and> scan_index (store short_response (index_list_request k_short)) 0 0 1 = Found 0
   \<and> scan_extent 1 (Found 0) = 13
   \<and> \<not> scan_extent 1 (scan_index (store short_response (index_list_request k_short)) 0 0 1)
        \<le> length short_response
   \<and> fst (bt_vendor_wait_hcidev k_short ex_vendor) = Returns 0
   \<and> fst (bt_vendor_wait_hcidev (k_short\<lparr>k_stack := ones_stack\<rparr>) ex_vendor) = Returns (- 1)
   \<and> length flood_response = 11
   \<and> scan_index (store flood_response (index_list_request k_flood)) 0 0 65535 = OutOfBounds 509
   \<and> fst (bt_vendor_wait_hcidev k_flood ex_vendor) = Undefined"
proof -
  have n: "cc_num_intf (store short_response (index_list_request k_short)) = 1"
    by (simp add: cc_num_intf_def le16_def store_def short_response_def)
  have f: "scan_index (store short_response (index_list_request k_short)) 0 0 1 = Found 0"
    by (simp add: cc_index_def le16_def store_def short_response_def sizeof_mgmt_pkt_def
        MGMT_EV_SIZE_MAX_def request_data k_short_def ex_kernel_def)
  have l: "length short_response = 11" "length flood_response = 11"
    by (simp_all add: short_response_def flood_response_def)
  have o: "scan_index (store flood_response (index_list_request k_flood)) 0 0 65535 = OutOfBounds 509"
  proof (rule scan_index_overrun)
    fix j :: nat
    show "int (cc_index (store flood_response (index_list_request k_flood)) j) \<noteq> 0"
      by (rule flood_entries)
  qed simp_all
  show ?thesis
    unfolding n f l o by (simp add: run_short run_short_ones run_flood)
qed

text \<open>
  Claim C2, amended. When the received packet is complete (it carries the header, for a
  command-complete event the sub-opcode and the status, and for an index-list response
  with status 0 also \<^verbatim>\<open>num_intf\<close> and all the indices it announces, within the size of the
  buffer), the loop body never reads outside the buffer, its verdict does not depend on
  what the buffer held before the read, and the parse of an index-list response reads
  received bytes only.
\<close>

theorem index_scan_within_complete:
  assumes "complete bs"
  shows "check_event t (store bs ev) \<noteq> Fault
       \<and> check_event t (store bs ev) = check_event t (store bs ev')
       \<and> (pkt_opcode (store bs ev) = MGMT_EV_COMMAND_COMP
            \<and> cc_opcode (store bs ev) = MGMT_OP_INDEX_LIST \<and> cc_status (store bs ev) = 0
          \<longrightarrow> scan_extent (cc_num_intf (store bs ev))
                (scan_index (store bs ev) t 0 (cc_num_intf (store bs ev))) \<le> length bs)"
proof (intro conjI impI)
  show "check_event t (store bs ev) \<noteq> Fault"
    by (simp add: check_event_complete [OF assms])
  show "check_event t (store bs ev) = check_event t (store bs ev')"
    by (simp add: check_event_complete [OF assms])
next
  assume a: "pkt_opcode (store bs ev) = MGMT_EV_COMMAND_COMP
            \<and> cc_opcode (store bs ev) = MGMT_OP_INDEX_LIST \<and> cc_status (store bs ev) = 0"
  note f = complete_fields [OF assms, of ev]
  from a have op: "pkt_opcode (image bs) = MGMT_EV_COMMAND_COMP" by (simp add: f(1))
  from a have il: "cc_opcode (image bs) = MGMT_OP_INDEX_LIST" "cc_status (image bs) = 0"
    by (simp_all add: f(3) [OF op] f(4) [OF op])
  note e = complete_entries [OF assms op il]
  let ?n = "cc_num_intf (image bs)"
  let ?r = "scan_index (store bs ev) t 0 ?n"
  have "scan_extent ?n ?r \<le> length bs"
  proof (cases ?r)
    case (Found j)
    from scan_index_sound [OF Found] have "j < ?n" by simp
    with e(4) Found show ?thesis by simp
  next
    case NotFound
    with e(4) show ?thesis by simp
  next
    case (OutOfBounds j)
    with scan_index_in_bounds [OF e(3), of "store bs ev" t j] show ?thesis by simp
  qed
  then show "scan_extent (cc_num_intf (store bs ev))
                (scan_index (store bs ev) t 0 (cc_num_intf (store bs ev))) \<le> length bs"
    by (simp add: e(1))
qed

theorem index_scan_within_complete_witness:
  "complete listed_0
   \<and> pkt_opcode (store listed_0 ones_stack) = MGMT_EV_COMMAND_COMP
   \<and> cc_opcode (store listed_0 ones_stack) = MGMT_OP_INDEX_LIST
   \<and> cc_status (store listed_0 ones_stack) = 0
   \<and> cc_num_intf (store listed_0 ones_stack) = 1
   \<and> scan_index (store listed_0 ones_stack) 0 0 1 = Found 0
   \<and> scan_extent 1 (Found 0) \<le> length listed_0
   \<and> check_event 0 (store listed_0 ones_stack) = Success
   \<and> check_event 0 (store listed_0 (index_list_request ex_kernel)) = Success"
proof -
  have c: "complete listed_0" by (simp add: spec_defs)
  have v: "pkt_opcode (store listed_0 ones_stack) = MGMT_EV_COMMAND_COMP"
    "cc_opcode (store listed_0 ones_stack) = MGMT_OP_INDEX_LIST"
    "cc_status (store listed_0 ones_stack) = 0"
    "cc_num_intf (store listed_0 ones_stack) = 1"
    by (simp_all add: pkt_opcode_def cc_opcode_def cc_status_def cc_num_intf_def le16_def
        store_def listed_0_def MGMT_EV_COMMAND_COMP_def MGMT_OP_INDEX_LIST_def)
  have f: "scan_index (store listed_0 ones_stack) 0 0 1 = Found 0"
    by (simp add: cc_index_def le16_def store_def listed_0_def sizeof_mgmt_pkt_def
        MGMT_EV_SIZE_MAX_def)
  have s: "check_event 0 (store listed_0 ones_stack) = Success"
    unfolding check_event_def v f
    by (simp add: MGMT_EV_COMMAND_COMP_def MGMT_EV_INDEX_ADDED_def)
  from index_scan_within_complete [OF c, of 0 ones_stack "index_list_request ex_kernel"]
  have "scan_extent 1 (Found 0) \<le> length listed_0
      \<and> check_event 0 (store listed_0 (index_list_request ex_kernel)) = Success"
    unfolding v f s by simp
  then show ?thesis unfolding v f s using c by simp
qed

subsection \<open>Power transitions\<close>

lemma rfkill_steps:
  "snd (bt_vendor_rfkill k (of_bool b) s)
     = s\<lparr>trace := trace s @ new_events s (snd (bt_vendor_rfkill k (of_bool b) s))\<rparr>
   \<and> new_events s (snd (bt_vendor_rfkill k (of_bool b) s)) \<noteq> []
   \<and> list_all (radio_step b) (new_events s (snd (bt_vendor_rfkill k (of_bool b) s)))
   \<and> (list_ex step_failed (new_events s (snd (bt_vendor_rfkill k (of_bool b) s)))
        \<longleftrightarrow> fst (bt_vendor_rfkill k (of_bool b) s) \<noteq> 0)"
  unfolding rfkill_trace rfkill_status new_events_append by simp

lemma hw_cfg_steps:
  "snd (bt_vendor_hw_cfg k (of_bool stop) s)
     = s\<lparr>trace := trace s @ new_events s (snd (bt_vendor_hw_cfg k (of_bool stop) s))\<rparr>
   \<and> list_all (hook_step (if stop then ''stop'' else ''start''))
        (new_events s (snd (bt_vendor_hw_cfg k (of_bool stop) s)))
   \<and> (bt_hwcfg_en s \<noteq> 0 \<longrightarrow> new_events s (snd (bt_vendor_hw_cfg k (of_bool stop) s)) \<noteq> [])
   \<and> (list_ex step_failed (new_events s (snd (bt_vendor_hw_cfg k (of_bool stop) s)))
        \<longleftrightarrow> fst (bt_vendor_hw_cfg k (of_bool stop) s) \<noteq> 0)"
  unfolding hw_cfg_trace hw_cfg_status new_events_append by simp

lemma power_on_unfold:
  "rfkill_en s \<noteq> 0 \<Longrightarrow>
   bt_vendor_op k BT_VND_OP_POWER_CTRL (IntP BT_VND_PWR_ON) s =
     (if fst (bt_vendor_rfkill k 0 s) = 0
      then (Returns (fst (bt_vendor_hw_cfg k 0 (snd (bt_vendor_rfkill k 0 s)))),
            IntP BT_VND_PWR_ON, snd (bt_vendor_hw_cfg k 0 (snd (bt_vendor_rfkill k 0 s))))
      else (Returns (fst (bt_vendor_rfkill k 0 s)), IntP BT_VND_PWR_ON, snd (bt_vendor_rfkill k 0 s)))"
  by (simp add: split_beta)

lemma power_off_unfold:
  "rfkill_en s \<noteq> 0 \<Longrightarrow> v \<noteq> BT_VND_PWR_ON \<Longrightarrow>
   bt_vendor_op k BT_VND_OP_POWER_CTRL (IntP v) s =
     (if fst (bt_vendor_hw_cfg k 1 s) = 0
      then (Returns (fst (bt_vendor_rfkill k 1 (snd (bt_vendor_hw_cfg k 1 s)))),
            IntP v, snd (bt_vendor_rfkill k 1 (snd (bt_vendor_hw_cfg k 1 s))))
      else (Returns (fst (bt_vendor_hw_cfg k 1 s)), IntP v, snd (bt_vendor_hw_cfg k 1 s)))"
  by (simp add: split_beta)

lemma power_on_shape:
  assumes en: "rfkill_en s \<noteq> 0"
  shows "\<exists>radio hook r.
           bt_vendor_op k BT_VND_OP_POWER_CTRL (IntP BT_VND_PWR_ON) s
             = (Returns r, IntP BT_VND_PWR_ON, s\<lparr>trace := trace s @ radio @ hook\<rparr>)
         \<and> radio \<noteq> [] \<and> list_all (radio_step False) radio
         \<and> list_all (hook_step ''start'') hook
         \<and> (list_ex step_failed radio \<longrightarrow>
              hook = [] \<and> r = fst (bt_vendor_rfkill k 0 s) \<and> r \<noteq> 0)
         \<and> (\<not> list_ex step_failed radio \<and> bt_hwcfg_en s \<noteq> 0 \<longrightarrow> hook \<noteq> [])
         \<and> (r = 0 \<longleftrightarrow> \<not> list_ex step_failed (radio @ hook))"
  (is "\<exists>radio hook r. ?P radio hook r")
proof -
  define radio where "radio = new_events s (snd (bt_vendor_rfkill k 0 s))"
  let ?s1 = "s\<lparr>trace := trace s @ radio\<rparr>"
  define hook where "hook = new_events ?s1 (snd (bt_vendor_hw_cfg k 0 ?s1))"
  note rf = rfkill_steps [of k False s, simplified, folded radio_def]
  note hk = hw_cfg_steps [of k False ?s1, simplified, folded hook_def]
  from rf have r: "snd (bt_vendor_rfkill k 0 s) = ?s1" by simp
  from hk have h: "snd (bt_vendor_hw_cfg k 0 ?s1) = s\<lparr>trace := trace s @ radio @ hook\<rparr>" by simp
  show ?thesis
  proof (cases "fst (bt_vendor_rfkill k 0 s) = 0")
    case True
    have "?P radio hook (fst (bt_vendor_hw_cfg k 0 ?s1))"
      unfolding power_on_unfold [OF en] using True rf hk by (simp add: r h)
    then show ?thesis by blast
  next
    case False
    have "?P radio [] (fst (bt_vendor_rfkill k 0 s))"
      unfolding power_on_unfold [OF en] using False rf by (simp add: r)
    then show ?thesis by blast
  qed
qed

lemma power_off_shape:
  assumes en: "rfkill_en s \<noteq> 0" and off: "v \<noteq> BT_VND_PWR_ON"
  shows "\<exists>hook radio r.
           bt_vendor_op k BT_VND_OP_POWER_CTRL (IntP v) s
             = (Returns r, IntP v, s\<lparr>trace := trace s @ hook @ radio\<rparr>)
         \<and> list_all (hook_step ''stop'') hook \<and> list_all (radio_step True) radio
         \<and> (bt_hwcfg_en s \<noteq> 0 \<longrightarrow> hook \<noteq> [])
         \<and> (list_ex step_failed hook \<longrightarrow>
              radio = [] \<and> r = fst (bt_vendor_hw_cfg k 1 s) \<and> r \<noteq> 0)
         \<and> (\<not> list_ex step_failed hook \<longrightarrow> radio \<noteq> [])
         \<and> (r = 0 \<longleftrightarrow> \<not> list_ex step_failed (hook @ radio))"
  (is "\<exists>hook radio r. ?P hook radio r")
proof -
  define hook where "hook = new_events s (snd (bt_vendor_hw_cfg k 1 s))"
  let ?s1 = "s\<lparr>trace := trace s @ hook\<rparr>"
  define radio where "radio = new_events ?s1 (snd (bt_vendor_rfkill k 1 ?s1))"
  note hk = hw_cfg_steps [of k True s, simplified, folded hook_def]
  note rf = rfkill_steps [of k True ?s1, simplified, folded radio_def]
  from hk have h: "snd (bt_vendor_hw_cfg k 1 s) = ?s1" by simp
  from rf have r: "snd (bt_vendor_rfkill k 1 ?s1) = s\<lparr>trace := trace s @ hook @ radio\<rparr>" by simp
  show ?thesis
  proof (cases "fst (bt_vendor_hw_cfg k 1 s) = 0")
    case True
    have "?P hook radio (fst (bt_vendor_rfkill k 1 ?s1))"
      unfolding power_off_unfold [OF en off] using True rf hk by (simp add: r h)
    then show ?thesis by blast
  next
    case False
    have "?P hook [] (fst (bt_vendor_hw_cfg k 1 s))"
      unfolding power_off_unfold [OF en off] using False hk by (simp add: h)
    then show ?thesis by blast
  qed
qed


lemmas power_defs =
  bt_vendor_rfkill_def bt_vendor_hw_cfg_def Let_def emit_def rfkill_bytes_def
  RFKILL_TYPE_BLUETOOTH_def RFKILL_OP_CHANGE_ALL_def BT_VND_PWR_ON_def
  ex_kernel_def ex_vendor_def


subsection \<open>The status returned by the dispatcher\<close>

text \<open>
  Claim C1, as stated, fails for the channel-open request: a successful
  \<^verbatim>\<open>BT_VND_OP_USERIAL_OPEN\<close> returns 1 to the caller, not 0.
\<close>

theorem open_status_counterexample:
  "0 \<le> k_socket ex_kernel
   \<and> fst (bt_vendor_op ex_kernel BT_VND_OP_USERIAL_OPEN (FdArrayP no_fds) ex_vendor) = Returns 1
   \<and> fst (bt_vendor_op ex_kernel BT_VND_OP_USERIAL_OPEN (FdArrayP no_fds) ex_vendor) \<noteq> Returns 0"
  by (simp add: bt_vendor_open_def ex_kernel_def Let_def)

text \<open>
  Claim C1, amended. Whenever the dispatcher returns a status: for the channel-open
  request the status is 1 when the socket was created and -1 when it was not; for the
  power-control request the status is 0 exactly when no step of the transition failed;
  for every other opcode the status is 0.
\<close>

theorem dispatcher_status:
  assumes "fst (bt_vendor_op k opcode p s) = Returns r"
  shows "(opcode = BT_VND_OP_USERIAL_OPEN \<longrightarrow>
            (0 \<le> k_socket k \<longrightarrow> r = 1) \<and> (k_socket k < 0 \<longrightarrow> r = - 1))
       \<and> (opcode = BT_VND_OP_POWER_CTRL \<longrightarrow>
            (r = 0 \<longleftrightarrow>
               \<not> list_ex step_failed (new_events s (snd (snd (bt_vendor_op k opcode p s))))))
       \<and> (opcode \<noteq> BT_VND_OP_USERIAL_OPEN \<and> opcode \<noteq> BT_VND_OP_POWER_CTRL \<longrightarrow> r = 0)"
proof (cases opcode)
  case BT_VND_OP_POWER_CTRL
  show ?thesis
  proof (cases "rfkill_en s = 0 \<or> p = NullP")
    case True
    with assms BT_VND_OP_POWER_CTRL show ?thesis by (auto simp add: new_events_def)
  next
    case False
    then have en: "rfkill_en s \<noteq> 0" and np: "p \<noteq> NullP" by simp_all
    from assms BT_VND_OP_POWER_CTRL en np obtain v where v: "p = IntP v"
      by (cases p) simp_all
    show ?thesis
    proof (cases "v = BT_VND_PWR_ON")
      case True
      from power_on_shape [OF en, of k] obtain radio hook r' where
        o: "bt_vendor_op k BT_VND_OP_POWER_CTRL (IntP BT_VND_PWR_ON) s
              = (Returns r', IntP BT_VND_PWR_ON, s\<lparr>trace := trace s @ radio @ hook\<rparr>)"
        and z: "r' = 0 \<longleftrightarrow> \<not> list_ex step_failed (radio @ hook)"
        by blast
      from assms o have "r = r'" by (simp add: BT_VND_OP_POWER_CTRL v True)
      moreover have "new_events s (snd (snd (bt_vendor_op k opcode p s))) = radio @ hook"
        unfolding BT_VND_OP_POWER_CTRL v True o by simp
      ultimately show ?thesis using z BT_VND_OP_POWER_CTRL by simp
    next
      case False
      from power_off_shape [OF en False, of k] obtain hook radio r' where
        o: "bt_vendor_op k BT_VND_OP_POWER_CTRL (IntP v) s
              = (Returns r', IntP v, s\<lparr>trace := trace s @ hook @ radio\<rparr>)"
        and z: "r' = 0 \<longleftrightarrow> \<not> list_ex step_failed (hook @ radio)"
        by blast
      from assms o have "r = r'" by (simp add: BT_VND_OP_POWER_CTRL v)
      moreover have "new_events s (snd (snd (bt_vendor_op k opcode p s))) = hook @ radio"
        unfolding BT_VND_OP_POWER_CTRL v o by simp
      ultimately show ?thesis using z BT_VND_OP_POWER_CTRL by simp
    qed
  qed
next
  case BT_VND_OP_FW_CFG
  with assms show ?thesis
    by (auto simp add: status_of_def split: prod.splits outcome.splits)
next
  case BT_VND_OP_SCO_CFG
  with assms show ?thesis
    by (auto simp add: status_of_def split: prod.splits outcome.splits)
next
  case BT_VND_OP_USERIAL_OPEN
  with assms show ?thesis
    by (auto simp add: bt_vendor_open_def Let_def split: if_splits param.splits)
next
  case BT_VND_OP_USERIAL_CLOSE
  with assms show ?thesis
    by (auto simp add: bt_vendor_close_def split: if_splits)
next
  case BT_VND_OP_GET_LPM_IDLE_TIMEOUT
  with assms show ?thesis by (auto split: param.splits)
next
  case BT_VND_OP_LPM_SET_MODE
  with assms show ?thesis
    by (auto simp add: status_of_def split: prod.splits outcome.splits)
next
  case BT_VND_OP_LPM_WAKE_SET_STATE
  with assms show ?thesis by simp
next
  case BT_VND_OP_SET_AUDIO_STATE
  with assms show ?thesis
    by (auto simp add: status_of_def split: prod.splits outcome.splits)
next
  case BT_VND_OP_EPILOG
  with assms show ?thesis
    by (auto simp add: status_of_def split: prod.splits outcome.splits)
next
  case BT_VND_OP_A2DP_OFFLOAD_START
  with assms show ?thesis by simp
next
  case BT_VND_OP_A2DP_OFFLOAD_STOP
  with assms show ?thesis by simp
next
  case (BT_VND_OP_OTHER x)
  with assms show ?thesis by simp
qed

theorem dispatcher_status_witness:
  "fst (bt_vendor_op ex_kernel BT_VND_OP_USERIAL_OPEN (FdArrayP no_fds) ex_vendor) = Returns 1
   \<and> 0 \<le> k_socket ex_kernel
   \<and> fst (bt_vendor_op ex_kernel BT_VND_OP_USERIAL_CLOSE NullP ex_vendor) = Returns 0
   \<and> fst (bt_vendor_op ex_kernel BT_VND_OP_POWER_CTRL (IntP BT_VND_PWR_ON) ex_vendor) = Returns 0
   \<and> \<not> list_ex step_failed
         (new_events ex_vendor
            (snd (snd (bt_vendor_op ex_kernel BT_VND_OP_POWER_CTRL (IntP BT_VND_PWR_ON) ex_vendor))))"
proof -
  have a: "fst (bt_vendor_op ex_kernel BT_VND_OP_USERIAL_OPEN (FdArrayP no_fds) ex_vendor) = Returns 1"
    by (simp add: bt_vendor_open_def ex_kernel_def Let_def)
  have b: "fst (bt_vendor_op ex_kernel BT_VND_OP_USERIAL_CLOSE NullP ex_vendor) = Returns 0"
    by (simp add: bt_vendor_close_def)
  have c: "fst (bt_vendor_op ex_kernel BT_VND_OP_POWER_CTRL (IntP BT_VND_PWR_ON) ex_vendor) = Returns 0"
    by (simp add: power_defs)
  from dispatcher_status [OF a] dispatcher_status [OF b] dispatcher_status [OF c]
  have "\<not> list_ex step_failed
         (new_events ex_vendor
            (snd (snd (bt_vendor_op ex_kernel BT_VND_OP_POWER_CTRL (IntP BT_VND_PWR_ON) ex_vendor))))"
    by simp
  with a b c show ?thesis by (simp add: ex_kernel_def)
qed

end
